theory Spec2Isabelle
  imports Complex_Main
begin

section \<open>Python values: exceptions and floats\<close>

text \<open>
  The exceptions that the modelled code can meet.  Every function of
  \<^verbatim>\<open>image_process.py\<close> wraps its body in \<^verbatim>\<open>try: ... except Exception\<close>,
  so an exception is a value that the handler inspects, never a crash.
\<close>

datatype error =
    ZeroDivisionError | OverflowError | ValueError | KeyError | AttributeError | OSError
  | MemoryError

definition and_then :: "error + 'a \<Rightarrow> ('a \<Rightarrow> error + 'b) \<Rightarrow> error + 'b" where
  "and_then m f = (case m of Inl e \<Rightarrow> Inl e | Inr x \<Rightarrow> f x)"

text \<open>
  A Python \<^verbatim>\<open>float\<close> is an IEEE-754 binary64 number.  The finite ones are
  rationals, and every float operation of the code is the exact operation
  followed by rounding to nearest, ties to even, on a 53 bit significand
  (\<open>fl\<close>).  The two zeros are identified: the code only compares floats,
  divides by them (both zeros raise) and truncates them (both give 0).
  Infinities never become values here: each product or quotient of the code
  is handed to \<^verbatim>\<open>int()\<close> at once, which raises \<^verbatim>\<open>OverflowError\<close> on an
  infinity, and the conversions of integers raise the same exception; so an
  overflowing operation is modelled as raising \<^verbatim>\<open>OverflowError\<close>.
\<close>

type_synonym pyfloat = rat

function bitlen :: "int \<Rightarrow> int" where
  \<comment> \<open>the number of binary digits of a positive integer\<close>
  "bitlen n = (if n \<le> 0 then 0 else bitlen (n div 2) + 1)"
  by pat_completeness auto
termination
  by (relation "measure nat") auto

declare bitlen.simps [simp del]

definition ilog2 :: "rat \<Rightarrow> int" where
  \<comment> \<open>\<open>\<lfloor>log\<^sub>2 q\<rfloor>\<close> for \<open>0 < q\<close>\<close>
  "ilog2 q = (if 1 \<le> q then bitlen \<lfloor>q\<rfloor> - 1 else - bitlen (\<lceil>1 / q\<rceil> - 1))"

definition round_half_even :: "rat \<Rightarrow> int" where
  "round_half_even x =
     (let f = \<lfloor>x\<rfloor>; d = x - of_int f
      in if d < 1 / 2 then f else if 1 / 2 < d then f + 1 else if even f then f else f + 1)"

definition ulp_exp :: "rat \<Rightarrow> int" where
  \<comment> \<open>exponent of the unit in the last place; \<open>- 1074\<close> in the subnormal range\<close>
  "ulp_exp q = max (ilog2 \<bar>q\<bar> - 52) (- 1074)"

definition fl :: "rat \<Rightarrow> rat" where
  "fl q = (if q = 0 then 0
           else of_int (round_half_even (q / 2 powi ulp_exp q)) * 2 powi ulp_exp q)"

definition to_float :: "rat \<Rightarrow> error + pyfloat" where
  "to_float q = (if 2 ^ 1024 \<le> \<bar>fl q\<bar> then Inl OverflowError else Inr (fl q))"

definition true_div :: "int \<Rightarrow> int \<Rightarrow> error + pyfloat" where
  \<comment> \<open>\<^verbatim>\<open>a / b\<close> on two ints: the correctly rounded quotient\<close>
  "true_div a b = (if b = 0 then Inl ZeroDivisionError else to_float (of_int a / of_int b))"

definition float_of_int :: "int \<Rightarrow> error + pyfloat" where
  "float_of_int n = to_float (of_int n)"

definition int_mul_float :: "int \<Rightarrow> pyfloat \<Rightarrow> error + pyfloat" where
  \<comment> \<open>\<^verbatim>\<open>n * x\<close>: the int is converted, then the floats are multiplied\<close>
  "int_mul_float n x = and_then (float_of_int n) (\<lambda>y. to_float (y * x))"

definition int_div_float :: "int \<Rightarrow> pyfloat \<Rightarrow> error + pyfloat" where
  "int_div_float n x =
     and_then (float_of_int n) (\<lambda>y. if x = 0 then Inl ZeroDivisionError else to_float (y / x))"

definition py_int :: "pyfloat \<Rightarrow> int" where
  \<comment> \<open>\<^verbatim>\<open>int(x)\<close> truncates towards zero\<close>
  "py_int x = (if 0 \<le> x then \<lfloor>x\<rfloor> else \<lceil>x\<rceil>)"

section \<open>Images and the imaging library\<close>

text \<open>
  An image is its size, its colour mode and its pixels.  The pixels are kept
  as the history of library operations that produced them, so that two images
  are equal exactly when they were obtained the same way from the same source.
\<close>

datatype resample = NEAREST | LANCZOS

datatype pixels =
    Source nat
  | Resized resample int int pixels
  | Cropped int int int int pixels
  | Thumbnail resample int int pixels

record image =
  width :: int
  height :: int
  mode :: string
  px :: pixels

text \<open>
  \<^verbatim>\<open>Image.resize\<close>: a request for the present size returns a copy; a side
  that does not fit a C \<^verbatim>\<open>int\<close> is rejected with \<^verbatim>\<open>OverflowError\<close>, a side
  below one pixel with \<^verbatim>\<open>ValueError\<close>, and a size for which the machine has
  no memory with \<^verbatim>\<open>MemoryError\<close>.  Whether an image of a given width and
  height can be allocated is a fact of the machine, the parameter \<open>mem\<close>.
  Resizing is the one operation of the code that can ask for an image larger
  than those it already holds; the other allocations are not modelled as
  failing.
\<close>

definition pil_resize ::
  "(int \<times> int \<Rightarrow> bool) \<Rightarrow> image \<Rightarrow> int \<times> int \<Rightarrow> resample \<Rightarrow> error + image" where
  "pil_resize mem img new_size alg =
     (let w = fst new_size; h = snd new_size
      in if w = width img \<and> h = height img then Inr img
         else if w < - (2 ^ 31) \<or> 2 ^ 31 \<le> w \<or> h < - (2 ^ 31) \<or> 2 ^ 31 \<le> h
         then Inl OverflowError
         else if w < 1 \<or> h < 1 then Inl ValueError
         else if \<not> mem (w, h) then Inl MemoryError
         else Inr \<lparr>width = w, height = h, mode = mode img, px = Resized alg w h (px img)\<rparr>)"

definition ample_memory :: "int \<times> int \<Rightarrow> bool" where
  \<comment> \<open>a machine that has memory for every image asked of it\<close>
  "ample_memory new_size = True"

text \<open>\<^verbatim>\<open>Image.crop((left, upper, right, lower))\<close>: the box may leave the image.\<close>

definition pil_crop :: "image \<Rightarrow> int \<times> int \<times> int \<times> int \<Rightarrow> error + image" where
  "pil_crop img box =
     (case box of (l, t, r, b) \<Rightarrow>
        if r < l \<or> b < t then Inl ValueError
        else Inr \<lparr>width = r - l, height = b - t, mode = mode img,
                  px = Cropped l t r b (px img)\<rparr>)"

section \<open>\<^verbatim>\<open>ImageProcessor.resize_image\<close>\<close>

text \<open>
  The body of the \<^verbatim>\<open>try\<close> block.  An exception leaves the block together
  with the image that the variable \<^verbatim>\<open>img\<close> holds at that moment, because the
  handler returns that variable.
\<close>

definition failing :: "image \<Rightarrow> error + 'a \<Rightarrow> ('a \<Rightarrow> (error \<times> image) + 'b) \<Rightarrow> (error \<times> image) + 'b"
  where
  "failing img m f = (case m of Inl e \<Rightarrow> Inl (e, img) | Inr x \<Rightarrow> f x)"

definition forced_aspect ::
  "(int \<times> int \<Rightarrow> bool) \<Rightarrow> image \<Rightarrow> int \<Rightarrow> int \<times> int \<Rightarrow> resample \<Rightarrow> (error \<times> image) + image" where
  "forced_aspect mem img sz aspect_ratio alg =
     failing img (true_div (fst aspect_ratio) (snd aspect_ratio)) (\<lambda>target_ratio.
     failing img (true_div (width img) (height img)) (\<lambda>current_ratio.
     failing img
       (if target_ratio < current_ratio
        then and_then (int_div_float sz target_ratio) (\<lambda>q. Inr (sz, py_int q))
        else and_then (int_mul_float sz target_ratio) (\<lambda>q. Inr (py_int q, sz)))
       (\<lambda>new_size.
     failing img (pil_resize mem img new_size alg) (\<lambda>img1.
       if current_ratio \<noteq> target_ratio then
         if target_ratio < current_ratio then
           failing img1 (int_mul_float (height img1) target_ratio) (\<lambda>q.
             let left = (width img1 - py_int q) div 2
             in failing img1 (pil_crop img1 (left, 0, left + py_int q, height img1)) Inr)
         else
           failing img1 (int_div_float (width img1) target_ratio) (\<lambda>q.
             let top = (height img1 - py_int q) div 2
             in failing img1 (pil_crop img1 (0, top, width img1, top + py_int q)) Inr)
       else Inr img1))))"

definition scale_by ::
  "(int \<times> int \<Rightarrow> bool) \<Rightarrow> image \<Rightarrow> int \<Rightarrow> int \<Rightarrow> resample \<Rightarrow> (error \<times> image) + image" where
  \<comment> \<open>\<^verbatim>\<open>ratio = size / edge\<close>, then both sides times \<^verbatim>\<open>ratio\<close>, truncated\<close>
  "scale_by mem img sz edge alg =
     failing img (true_div sz edge) (\<lambda>ratio.
     failing img (int_mul_float (width img) ratio) (\<lambda>w.
     failing img (int_mul_float (height img) ratio) (\<lambda>h.
     failing img (pil_resize mem img (py_int w, py_int h) alg) Inr)))"

definition crop_square ::
  "(int \<times> int \<Rightarrow> bool) \<Rightarrow> image \<Rightarrow> int \<Rightarrow> resample \<Rightarrow> (error \<times> image) + image" where
  "crop_square mem img sz alg =
     (let min_side = min (width img) (height img);
          left = (width img - min_side) div 2;
          top = (height img - min_side) div 2
      in failing img (pil_crop img (left, top, left + min_side, top + min_side)) (\<lambda>img1.
         failing img1 (pil_resize mem img1 (sz, sz) alg) Inr))"

definition resize_body ::
  "(int \<times> int \<Rightarrow> bool) \<Rightarrow> image \<Rightarrow> string \<Rightarrow> int \<Rightarrow> (int \<times> int) option \<Rightarrow> bool \<Rightarrow> (error \<times> image) + image" where
  "resize_body mem img rmode sz aspect_ratio fast =
     (if rmode = ''original'' then Inr img
      else
        let resize_algorithm = (if fast then NEAREST else LANCZOS)
        in case aspect_ratio of
             Some ar \<Rightarrow> forced_aspect mem img sz ar resize_algorithm
           | None \<Rightarrow>
               if rmode = ''longest_edge''
               then scale_by mem img sz (max (width img) (height img)) resize_algorithm
               else if rmode = ''shortest_edge''
               then scale_by mem img sz (min (width img) (height img)) resize_algorithm
               else if rmode = ''custom''
               then scale_by mem img sz (min (width img) (height img)) resize_algorithm
               else if rmode = ''crop''
               then crop_square mem img sz resize_algorithm
               else Inr img)"

text \<open>
  \<^verbatim>\<open>resize_image\<close> itself: the result and, when the handler ran, the
  exception whose message it printed.  No exception reaches the caller.
\<close>

definition resize_image ::
  "(int \<times> int \<Rightarrow> bool) \<Rightarrow> image \<Rightarrow> string \<Rightarrow> int \<Rightarrow> (int \<times> int) option \<Rightarrow> bool \<Rightarrow> image \<times> error option" where
  "resize_image mem img rmode sz aspect_ratio fast =
     (case resize_body mem img rmode sz aspect_ratio fast of
        Inl (e, held) \<Rightarrow> (held, Some e)
      | Inr res \<Rightarrow> (res, None))"

section \<open>\<^verbatim>\<open>ImageProcessor.create_combined_image\<close>\<close>

text \<open>
  The canvas is an image under construction: its size, its mode, the fill it
  was allocated with, and the paste and text operations applied to it, in
  order.  A paste is the image, its position and whether the image served as
  its own alpha mask.
\<close>

type_synonym paste = "image \<times> int \<times> int \<times> bool"

type_synonym label = "nat list \<times> int \<times> int \<times> string"

record canvas =
  cwidth :: int
  cheight :: int
  cmode :: string
  fill :: string
  pastes :: "paste list"
  labels :: "label list"

definition py_range :: "int \<Rightarrow> int list" where
  \<comment> \<open>\<^verbatim>\<open>range(n)\<close>; empty when \<open>n \<le> 0\<close>\<close>
  "py_range n = map int [0..<nat n]"

definition row_height :: "image list \<Rightarrow> int \<Rightarrow> int \<Rightarrow> int" where
  "row_height images cols r =
     foldl (\<lambda>max_height c.
              let idx = r * cols + c
              in if idx < int (length images)
                 then max max_height (height (images ! nat idx)) else max_height)
           0 (py_range cols)"

definition col_width :: "image list \<Rightarrow> int \<Rightarrow> int \<Rightarrow> int \<Rightarrow> int" where
  "col_width images rows cols c =
     foldl (\<lambda>max_width r.
              let idx = r * cols + c
              in if idx < int (length images)
                 then max max_width (width (images ! nat idx)) else max_width)
           0 (py_range rows)"

definition row_heights :: "image list \<Rightarrow> int \<Rightarrow> int \<Rightarrow> int list" where
  "row_heights images rows cols = map (row_height images cols) (py_range rows)"

definition col_widths :: "image list \<Rightarrow> int \<Rightarrow> int \<Rightarrow> int list" where
  "col_widths images rows cols = map (col_width images rows cols) (py_range cols)"

definition total_width :: "image list \<Rightarrow> int \<Rightarrow> int \<Rightarrow> int \<Rightarrow> int \<Rightarrow> int" where
  "total_width images rows cols h_spacing margin =
     sum_list (col_widths images rows cols) + (cols - 1) * h_spacing + 2 * margin"

definition total_height :: "image list \<Rightarrow> int \<Rightarrow> int \<Rightarrow> int \<Rightarrow> int \<Rightarrow> int" where
  "total_height images rows cols v_spacing margin =
     sum_list (row_heights images rows cols) + (rows - 1) * v_spacing + 2 * margin"

definition max_canvas_size :: int where
  "max_canvas_size = 16384"

definition limit_canvas :: "int \<Rightarrow> int \<Rightarrow> error + (int \<times> int)" where
  "limit_canvas tw th =
     (if max_canvas_size < tw \<or> max_canvas_size < th
      then and_then (true_div max_canvas_size (max tw th)) (\<lambda>scale.
           and_then (int_mul_float tw scale) (\<lambda>w.
           and_then (int_mul_float th scale) (\<lambda>h. Inr (py_int w, py_int h))))
      else Inr (tw, th))"

text \<open>
  \<^verbatim>\<open>Image.new\<close> rejects a negative side and a colour name that the
  library's colour table does not know; the table is the parameter \<open>known\<close>.
\<close>

definition image_new :: "(string \<Rightarrow> bool) \<Rightarrow> int \<times> int \<Rightarrow> string \<Rightarrow> error + canvas" where
  "image_new known dims bg_color =
     (if fst dims < 0 \<or> snd dims < 0 then Inl ValueError
      else if bg_color = ''transparent''
      then Inr \<lparr>cwidth = fst dims, cheight = snd dims, cmode = ''RGBA'',
                fill = ''transparent'', pastes = [], labels = []\<rparr>
      else if known bg_color
      then Inr \<lparr>cwidth = fst dims, cheight = snd dims, cmode = ''RGB'',
                fill = bg_color, pastes = [], labels = []\<rparr>
      else Inl ValueError)"

definition place :: "string \<Rightarrow> int \<Rightarrow> int \<Rightarrow> int \<Rightarrow> int \<Rightarrow> image \<Rightarrow> int \<times> int" where
  \<comment> \<open>the position of an image inside its cell\<close>
  "place align x_offset y_offset cw rh img =
     (if align = ''center''
      then (x_offset + (cw - width img) div 2, y_offset + (rh - height img) div 2)
      else if align = ''left''
      then (x_offset, y_offset + (rh - height img) div 2)
      else (x_offset + cw - width img, y_offset + (rh - height img) div 2))"

definition paste_image :: "canvas \<Rightarrow> image \<Rightarrow> int \<times> int \<Rightarrow> canvas" where
  "paste_image combined img pos =
     combined\<lparr>pastes := pastes combined @ [(img, fst pos, snd pos, mode img = ''RGBA'')]\<rparr>"

definition paste_row ::
  "image list \<Rightarrow> int \<Rightarrow> int \<Rightarrow> int \<Rightarrow> string \<Rightarrow> int list \<Rightarrow> int \<Rightarrow> int \<Rightarrow> int \<Rightarrow> canvas
     \<Rightarrow> canvas" where
  "paste_row images cols h_spacing margin align cws rh r y_offset combined =
     snd (foldl (\<lambda>(x_offset, cv) c.
                   let idx = r * cols + c
                   in (x_offset + cws ! nat c + h_spacing,
                       if idx < int (length images)
                       then paste_image cv (images ! nat idx)
                              (place align x_offset y_offset (cws ! nat c) rh (images ! nat idx))
                       else cv))
                (margin, combined) (py_range cols))"

definition paste_all ::
  "image list \<Rightarrow> int \<Rightarrow> int \<Rightarrow> int \<Rightarrow> int \<Rightarrow> int \<Rightarrow> string \<Rightarrow> int list \<Rightarrow> int list
     \<Rightarrow> canvas \<Rightarrow> canvas" where
  "paste_all images rows cols h_spacing v_spacing margin align cws rhs combined =
     snd (foldl (\<lambda>(y_offset, cv) r.
                   (y_offset + rhs ! nat r + v_spacing,
                    paste_row images cols h_spacing margin align cws (rhs ! nat r) r y_offset cv))
                (margin, combined) (py_range rows))"

text \<open>
  The result is \<open>None\<close> where the method returns \<^verbatim>\<open>None\<close>: for an empty
  image list, and from the handler of any exception.
\<close>

definition create_combined_image ::
  "(string \<Rightarrow> bool) \<Rightarrow> image list \<Rightarrow> int \<Rightarrow> int \<Rightarrow> int \<Rightarrow> int \<Rightarrow> string \<Rightarrow> int \<Rightarrow> string
     \<Rightarrow> canvas option" where
  "create_combined_image known images rows cols h_spacing v_spacing bg_color margin align =
     (if images = [] then None
      else
        let rhs = row_heights images rows cols;
            cws = col_widths images rows cols
        in case and_then
                  (limit_canvas (total_width images rows cols h_spacing margin)
                                (total_height images rows cols v_spacing margin))
                  (\<lambda>dims. image_new known dims bg_color) of
             Inl e \<Rightarrow> None
           | Inr combined \<Rightarrow>
               Some (paste_all images rows cols h_spacing v_spacing margin align cws rhs
                       combined))"

section \<open>Images that differ in the resampling filter only\<close>





section \<open>The grid as the specification words it\<close>

text \<open>
  Row-major assignment: image \<open>i\<close> goes to row \<open>i div cols\<close> and column
  \<open>i mod cols\<close>, and only indices below \<open>rows * cols\<close> are placed.  A cell
  is as wide as the widest image of its column and as high as the highest
  image of its row, 0 for an empty one; the canvas adds the spacing between
  the cells and the margin on both sides.
\<close>

definition column_images :: "image list \<Rightarrow> int \<Rightarrow> int \<Rightarrow> int \<Rightarrow> image list" where
  "column_images images rows cols c =
     map (\<lambda>i. images ! i)
       (filter (\<lambda>i. int i < rows * cols \<and> int i mod cols = c) [0..<length images])"

definition row_images :: "image list \<Rightarrow> int \<Rightarrow> int \<Rightarrow> int \<Rightarrow> image list" where
  "row_images images rows cols r =
     map (\<lambda>i. images ! i)
       (filter (\<lambda>i. int i < rows * cols \<and> int i div cols = r) [0..<length images])"

definition max_or_zero :: "int list \<Rightarrow> int" where
  "max_or_zero xs = (if xs = [] then 0 else Max (set xs))"

definition cell_width :: "image list \<Rightarrow> int \<Rightarrow> int \<Rightarrow> int \<Rightarrow> int" where
  "cell_width images rows cols c = max_or_zero (map width (column_images images rows cols c))"

definition cell_height :: "image list \<Rightarrow> int \<Rightarrow> int \<Rightarrow> int \<Rightarrow> int" where
  "cell_height images rows cols r = max_or_zero (map height (row_images images rows cols r))"

definition canvas_width :: "image list \<Rightarrow> int \<Rightarrow> int \<Rightarrow> int \<Rightarrow> int \<Rightarrow> int" where
  "canvas_width images rows cols h_spacing margin =
     margin * 2 + (\<Sum>c\<leftarrow>py_range cols. cell_width images rows cols c) + (cols - 1) * h_spacing"

definition canvas_height :: "image list \<Rightarrow> int \<Rightarrow> int \<Rightarrow> int \<Rightarrow> int \<Rightarrow> int" where
  "canvas_height images rows cols v_spacing margin =
     margin * 2 + (\<Sum>r\<leftarrow>py_range rows. cell_height images rows cols r) + (rows - 1) * v_spacing"

section \<open>Where the grid puts each image\<close>

text \<open>
  The paste that row-major placement gives image \<open>i\<close>: row \<open>i div m\<close>,
  column \<open>i mod m\<close> for \<open>m\<close> columns, the cell's origin being the margin
  plus the widths (heights) and spacings of the columns (rows) before it.
\<close>

definition grid_entry ::
  "image list \<Rightarrow> nat \<Rightarrow> int \<Rightarrow> int \<Rightarrow> int \<Rightarrow> string \<Rightarrow> int list \<Rightarrow> int list \<Rightarrow> nat \<Rightarrow> paste"
  where
  "grid_entry images m h_spacing v_spacing margin align cws rhs i =
     (let r = i div m; c = i mod m; img = images ! i;
          pos = place align (margin + (\<Sum>j\<leftarrow>[0..<c]. cws ! j + h_spacing))
                            (margin + (\<Sum>j\<leftarrow>[0..<r]. rhs ! j + v_spacing))
                            (cws ! c) (rhs ! r) img
      in (img, fst pos, snd pos, mode img = ''RGBA''))"

definition cell_paste ::
  "image list \<Rightarrow> int \<Rightarrow> int \<Rightarrow> int \<Rightarrow> int \<Rightarrow> int \<Rightarrow> string \<Rightarrow> nat \<Rightarrow> paste" where
  "cell_paste images rows cols h_spacing v_spacing margin align =
     grid_entry images (nat cols) h_spacing v_spacing margin align
       (col_widths images rows cols) (row_heights images rows cols)"

section \<open>\<^verbatim>\<open>ImageProcessor.add_labels\<close>\<close>

text \<open>
  A Python string is the list of its code points.  \<^verbatim>\<open>chr\<close> accepts the
  code points below \<^verbatim>\<open>0x110000\<close>.
\<close>

definition ord_str :: "string \<Rightarrow> nat list" where
  "ord_str s = map of_char s"

definition py_chr :: "int \<Rightarrow> error + nat" where
  "py_chr i =
     (if 2 ^ 31 \<le> \<bar>i\<bar> then Inl OverflowError
      else if i < 0 \<or> 1114112 \<le> i then Inl ValueError
      else Inr (nat i))"

definition label_text :: "string \<Rightarrow> int \<Rightarrow> error + nat list" where
  "label_text label_format label_idx =
     (if label_format = ''(a)''
      then and_then (py_chr (97 + label_idx)) (\<lambda>ch. Inr (ord_str ''('' @ [ch] @ ord_str '')''))
      else if label_format = ''a/''
      then and_then (py_chr (97 + label_idx)) (\<lambda>ch. Inr ([ch] @ ord_str ''/''))
      else and_then (py_chr (97 + label_idx)) (\<lambda>ch. Inr (ord_str ''Fig1'' @ [ch])))"

text \<open>
  The corner of the image at which the text is anchored.  The measured box
  of the text in the resolved font is the parameter \<open>bbox\<close>; resolving the
  font never fails, it ends at the built-in font.
\<close>

definition text_position ::
  "string \<Rightarrow> int \<times> int \<times> int \<times> int \<Rightarrow> int \<Rightarrow> int \<times> int \<Rightarrow> image \<Rightarrow> int \<times> int" where
  "text_position label_position bbox label_margin img_pos img =
     (case bbox of (x0, y0, x1, y1) \<Rightarrow>
        let text_width = x1 - x0; text_height = y1 - y0;
            img_x = fst img_pos; img_y = snd img_pos
        in if label_position = ''top_left''
           then (img_x + label_margin, img_y + label_margin)
           else if label_position = ''top_right''
           then (img_x + width img - text_width - label_margin, img_y + label_margin)
           else if label_position = ''bottom_left''
           then (img_x + label_margin, img_y + height img - text_height - label_margin)
           else (img_x + width img - text_width - label_margin,
                 img_y + height img - text_height - label_margin))"

text \<open>
  \<^verbatim>\<open>draw.text\<close> rejects a colour it does not know.  The text is drawn on the
  canvas in place, so a later exception leaves the labels drawn so far.
\<close>

definition draw_text :: "(string \<Rightarrow> bool) \<Rightarrow> canvas \<Rightarrow> nat list \<Rightarrow> int \<times> int \<Rightarrow> string \<Rightarrow> error + canvas"
  where
  "draw_text known cv text pos label_color =
     (if known label_color
      then Inr (cv\<lparr>labels := labels cv @ [(text, fst pos, snd pos, label_color)]\<rparr>)
      else Inl ValueError)"

definition label_cell ::
  "(string \<Rightarrow> bool) \<Rightarrow> (nat list \<Rightarrow> int \<times> int \<times> int \<times> int) \<Rightarrow> image list \<Rightarrow> string \<Rightarrow> string
     \<Rightarrow> string \<Rightarrow> int \<Rightarrow> string \<Rightarrow> int \<Rightarrow> int \<Rightarrow> int \<Rightarrow> int \<Rightarrow> int \<Rightarrow> canvas
     \<Rightarrow> error + canvas" where
  "label_cell known bbox images label_format label_position label_color label_margin align
     cw rh idx x_offset y_offset cv =
     and_then (label_text label_format idx) (\<lambda>text.
       let img = images ! nat idx;
           img_pos = place align x_offset y_offset cw rh img
       in draw_text known cv text
            (text_position label_position (bbox text) label_margin img_pos img) label_color)"

definition label_row ::
  "(string \<Rightarrow> bool) \<Rightarrow> (nat list \<Rightarrow> int \<times> int \<times> int \<times> int) \<Rightarrow> image list \<Rightarrow> int \<Rightarrow> string
     \<Rightarrow> string \<Rightarrow> string \<Rightarrow> int \<Rightarrow> int \<Rightarrow> int \<Rightarrow> string \<Rightarrow> int list \<Rightarrow> int \<Rightarrow> int \<Rightarrow> int
     \<Rightarrow> canvas \<Rightarrow> (error \<times> canvas) + canvas" where
  "label_row known bbox images cols label_format label_position label_color label_margin
     h_spacing margin align cws rh r y_offset combined =
     (case foldl (\<lambda>state c.
                    case state of
                      Inl stopped \<Rightarrow> Inl stopped
                    | Inr (x_offset, cv) \<Rightarrow>
                        let idx = r * cols + c
                        in if idx < int (length images)
                           then case label_cell known bbox images label_format label_position
                                       label_color label_margin align (cws ! nat c) rh idx
                                       x_offset y_offset cv of
                                  Inl e \<Rightarrow> Inl (e, cv)
                                | Inr cv' \<Rightarrow> Inr (x_offset + cws ! nat c + h_spacing, cv')
                           else Inr (x_offset + cws ! nat c + h_spacing, cv))
                 (Inr (margin, combined)) (py_range cols) of
        Inl stopped \<Rightarrow> Inl stopped
      | Inr (x_offset, cv) \<Rightarrow> Inr cv)"

definition label_all ::
  "(string \<Rightarrow> bool) \<Rightarrow> (nat list \<Rightarrow> int \<times> int \<times> int \<times> int) \<Rightarrow> image list \<Rightarrow> int \<Rightarrow> int
     \<Rightarrow> string \<Rightarrow> string \<Rightarrow> string \<Rightarrow> int \<Rightarrow> int \<Rightarrow> int \<Rightarrow> int \<Rightarrow> string \<Rightarrow> int list
     \<Rightarrow> int list \<Rightarrow> canvas \<Rightarrow> (error \<times> canvas) + canvas" where
  "label_all known bbox images rows cols label_format label_position label_color label_margin
     h_spacing v_spacing margin align cws rhs combined =
     (case foldl (\<lambda>state r.
                    case state of
                      Inl stopped \<Rightarrow> Inl stopped
                    | Inr (y_offset, cv) \<Rightarrow>
                        case label_row known bbox images cols label_format label_position
                               label_color label_margin h_spacing margin align cws
                               (rhs ! nat r) r y_offset cv of
                          Inl stopped \<Rightarrow> Inl stopped
                        | Inr cv' \<Rightarrow> Inr (y_offset + rhs ! nat r + v_spacing, cv'))
                 (Inr (margin, combined)) (py_range rows) of
        Inl stopped \<Rightarrow> Inl stopped
      | Inr (y_offset, cv) \<Rightarrow> Inr cv)"

text \<open>
  \<^verbatim>\<open>add_labels\<close> is handed what \<^verbatim>\<open>create_combined_image\<close> returned, which
  may be \<^verbatim>\<open>None\<close>; then reading \<^verbatim>\<open>combined.mode\<close> raises and the handler
  returns \<^verbatim>\<open>None\<close>.  Otherwise the result is the canvas, converted to RGBA,
  with the labels drawn before the first exception, if any.  The font family
  and size only enter through \<open>bbox\<close>.
\<close>

definition add_labels ::
  "(string \<Rightarrow> bool) \<Rightarrow> (nat list \<Rightarrow> int \<times> int \<times> int \<times> int) \<Rightarrow> image list \<Rightarrow> canvas option
     \<Rightarrow> int \<Rightarrow> int \<Rightarrow> string \<Rightarrow> string \<Rightarrow> string \<Rightarrow> int \<Rightarrow> int \<Rightarrow> int \<Rightarrow> int \<Rightarrow> string
     \<Rightarrow> canvas option" where
  "add_labels known bbox images combined rows cols label_format label_position label_color
     label_margin h_spacing v_spacing margin align =
     (case combined of
        None \<Rightarrow> None
      | Some cv0 \<Rightarrow>
          let cv = (if cmode cv0 \<noteq> ''RGBA'' then cv0\<lparr>cmode := ''RGBA''\<rparr> else cv0)
          in case label_all known bbox images rows cols label_format label_position
                    label_color label_margin h_spacing v_spacing margin align
                    (col_widths images rows cols) (row_heights images rows cols) cv of
               Inl (e, held) \<Rightarrow> Some held
             | Inr labelled \<Rightarrow> Some labelled)"

text \<open>
  The label of the cell with index \<open>i\<close> when nothing is raised: the text,
  which is built on the code point \<open>97 + i\<close>, and its anchor in the image
  that row-major placement puts in that cell.
\<close>

definition label_string :: "string \<Rightarrow> nat \<Rightarrow> nat list" where
  "label_string label_format i =
     (if label_format = ''(a)'' then ord_str ''('' @ [97 + i] @ ord_str '')''
      else if label_format = ''a/'' then [97 + i] @ ord_str ''/''
      else ord_str ''Fig1'' @ [97 + i])"

definition label_entry ::
  "(nat list \<Rightarrow> int \<times> int \<times> int \<times> int) \<Rightarrow> image list \<Rightarrow> nat \<Rightarrow> string \<Rightarrow> string \<Rightarrow> string
     \<Rightarrow> int \<Rightarrow> int \<Rightarrow> int \<Rightarrow> int \<Rightarrow> string \<Rightarrow> int list \<Rightarrow> int list \<Rightarrow> nat \<Rightarrow> label" where
  "label_entry bbox images m label_format label_position label_color label_margin
     h_spacing v_spacing margin align cws rhs i =
     (let r = i div m; c = i mod m; img = images ! i;
          text = label_string label_format i;
          img_pos = place align (margin + (\<Sum>j\<leftarrow>[0..<c]. cws ! j + h_spacing))
                                (margin + (\<Sum>j\<leftarrow>[0..<r]. rhs ! j + v_spacing))
                                (cws ! c) (rhs ! r) img;
          pos = text_position label_position (bbox text) label_margin img_pos img
      in (text, fst pos, snd pos, label_color))"

section \<open>\<^verbatim>\<open>ImageProcessor.load_images\<close>\<close>

text \<open>
  \<^verbatim>\<open>Image.thumbnail(size, resample)\<close> of the imaging library (the version that
  has \<^verbatim>\<open>Image.Resampling\<close>, which the code uses).  An image that fits the
  requested size is left alone.  Otherwise one side is kept at the requested
  value and the other is \<^verbatim>\<open>round_aspect\<close> of the float product or quotient
  with the aspect ratio: its floor or its ceiling, whichever has the smaller
  key (the floor on a tie), and at least 1.  The image is then resized with
  the library's reducing gap, which is recorded as \<open>Thumbnail\<close>.  The
  difference \<^verbatim>\<open>aspect - n / y\<close> inside a key never overflows for images the
  library can hold; the model keeps the convention that an overflowing float
  operation raises.
\<close>

definition float_sub :: "pyfloat \<Rightarrow> pyfloat \<Rightarrow> error + pyfloat" where
  "float_sub a b = to_float (a - b)"

definition round_aspect :: "pyfloat \<Rightarrow> (int \<Rightarrow> error + pyfloat) \<Rightarrow> error + int" where
  \<comment> \<open>\<^verbatim>\<open>max(min(math.floor(number), math.ceil(number), key=key), 1)\<close>\<close>
  "round_aspect number key =
     (let a = \<lfloor>number\<rfloor>; b = \<lceil>number\<rceil>
      in and_then (key a) (\<lambda>ka.
         and_then (key b) (\<lambda>kb.
           Inr (max (if kb < ka then b else a) 1))))"

definition preserve_aspect_ratio :: "image \<Rightarrow> int \<times> int \<Rightarrow> error + (int \<times> int) option" where
  "preserve_aspect_ratio img provided_size =
     (let x = fst provided_size; y = snd provided_size
      in if width img \<le> x \<and> height img \<le> y then Inr None
         else
           and_then (true_div (width img) (height img)) (\<lambda>aspect.
           and_then (true_div x y) (\<lambda>xy.
             if aspect \<le> xy
             then and_then (int_mul_float y aspect) (\<lambda>number.
                  and_then (round_aspect number
                              (\<lambda>n. and_then (true_div n y) (\<lambda>q.
                                     and_then (float_sub aspect q) (\<lambda>d. Inr \<bar>d\<bar>))))
                    (\<lambda>x1. Inr (Some (x1, y))))
             else and_then (int_div_float x aspect) (\<lambda>number.
                  and_then (round_aspect number
                              (\<lambda>n. if n = 0 then Inr 0
                                   else and_then (true_div x n) (\<lambda>q.
                                     and_then (float_sub aspect q) (\<lambda>d. Inr \<bar>d\<bar>))))
                    (\<lambda>y1. Inr (Some (x, y1)))))))"

definition pil_thumbnail ::
  "(int \<times> int \<Rightarrow> bool) \<Rightarrow> image \<Rightarrow> int \<times> int \<Rightarrow> resample \<Rightarrow> error + image" where
  "pil_thumbnail mem img sz alg =
     and_then (preserve_aspect_ratio img sz) (\<lambda>final_size.
       case final_size of
         None \<Rightarrow> Inr img
       | Some new_size \<Rightarrow>
           if (width img, height img) \<noteq> new_size
           then and_then (pil_resize mem img new_size alg) (\<lambda>r.
                  Inr (r\<lparr>px := Thumbnail alg (fst new_size) (snd new_size) (px img)\<rparr>))
           else Inr img)"

text \<open>
  What the program reads from outside: the file system, the decoders of the
  imaging and plotting libraries, the colour names and font metrics of the
  imaging library, the size of the preview area of the window, and the
  memory of the machine.  An image returned by a decoder carries its decoded
  pixels; a file that cannot be decoded fails when it is opened.
\<close>

type_synonym path = string

record environment =
  path_exists :: "path \<Rightarrow> bool"
  splitext_lower :: "path \<Rightarrow> string"
  image_open :: "path \<Rightarrow> error + image"
  exif_transpose :: "image \<Rightarrow> error + image"
  render_eps :: "path \<Rightarrow> error + image"
  image_convert :: "image \<Rightarrow> string \<Rightarrow> error + image"
  known_colour :: "string \<Rightarrow> bool"
  text_bbox :: "nat list \<Rightarrow> int \<Rightarrow> nat list \<Rightarrow> int \<times> int \<times> int \<times> int"
  preview_size :: "int \<times> int"
  can_allocate :: "int \<times> int \<Rightarrow> bool"

text \<open>
  The processor holds the loaded images (\<^verbatim>\<open>self.images\<close>) and, index by
  index, the paths they were loaded from (\<^verbatim>\<open>self.image_paths\<close>).
\<close>

record processor =
  stored_images :: "image list"
  image_paths :: "path list"

definition load_eps :: "environment \<Rightarrow> path \<Rightarrow> error + image" where
  \<comment> \<open>\<^verbatim>\<open>_load_eps\<close>: the plotting library, and on any failure the imaging library\<close>
  "load_eps env path =
     (case render_eps env path of Inl e \<Rightarrow> image_open env path | Inr img \<Rightarrow> Inr img)"

definition read_image :: "environment \<Rightarrow> path \<Rightarrow> error + image" where
  \<comment> \<open>the loader chosen by the extension, the EXIF orientation, the conversion to RGB\<close>
  "read_image env path =
     (if splitext_lower env path = ''.eps'' then load_eps env path
      else and_then (image_open env path) (\<lambda>img0.
             let img = (case exif_transpose env img0 of Inl e \<Rightarrow> img0 | Inr t \<Rightarrow> t)
             in if mode img = ''RGBA'' then Inr img
                else if mode img \<noteq> ''RGB'' then image_convert env img ''RGB''
                else Inr img))"

definition max_size :: int where
  "max_size = 1024"

definition make_thumbnail :: "(int \<times> int \<Rightarrow> bool) \<Rightarrow> image \<Rightarrow> error + image" where
  \<comment> \<open>the copy that is stored: reduced when its longer side exceeds \<^verbatim>\<open>max_size\<close>\<close>
  "make_thumbnail mem img =
     (let thumbnail = img
      in if max_size < max (width thumbnail) (height thumbnail)
         then pil_thumbnail mem thumbnail (max_size, max_size) LANCZOS
         else Inr thumbnail)"

text \<open>
  One turn of the loop over \<^verbatim>\<open>paths\<close>.  The state is the processor, the
  error messages collected so far, and the two counters.  A path already
  loaded is skipped, a missing file and any exception of the body add a
  message, and only a thumbnail that was built is appended.
\<close>

datatype load_error = Missing path | Failed path error

type_synonym load_state = "processor \<times> load_error list \<times> nat \<times> nat"

definition load_step :: "environment \<Rightarrow> load_state \<Rightarrow> path \<Rightarrow> load_state" where
  "load_step env st path =
     (case st of (p, errors, added_count, skipped_count) \<Rightarrow>
        if path \<in> set (image_paths p) then (p, errors, added_count, skipped_count + 1)
        else if \<not> path_exists env path
        then (p, errors @ [Missing path], added_count, skipped_count)
        else case and_then (read_image env path) (make_thumbnail (can_allocate env)) of
               Inl e \<Rightarrow> (p, errors @ [Failed path e], added_count, skipped_count)
             | Inr thumbnail \<Rightarrow>
                 (p\<lparr>stored_images := stored_images p @ [thumbnail],
                    image_paths := image_paths p @ [path]\<rparr>,
                  errors, added_count + 1, skipped_count))"

text \<open>
  \<^verbatim>\<open>load_images\<close> returns \<^verbatim>\<open>(False, messages)\<close> when a message was collected
  and \<^verbatim>\<open>(True, ...)\<close> with the two counts otherwise; the processor keeps what
  was appended in both cases.
\<close>

definition load_images ::
  "environment \<Rightarrow> processor \<Rightarrow> path list \<Rightarrow> processor \<times> (load_error list + nat \<times> nat)" where
  "load_images env p paths =
     (case foldl (load_step env) (p, [], 0, 0) paths of
        (p1, errors, added_count, skipped_count) \<Rightarrow>
          if errors \<noteq> [] then (p1, Inl errors) else (p1, Inr (added_count, skipped_count)))"

definition bounded_images :: "processor \<Rightarrow> bool" where
  "bounded_images p = list_all (\<lambda>img. max (width img) (height img) \<le> max_size) (stored_images p)"

section \<open>The main window: \<^verbatim>\<open>update_preview\<close> and \<^verbatim>\<open>output_image\<close>\<close>

text \<open>
  The texts shown by the combo boxes are Python strings, kept here as their
  code points.  Each combo box is filled once, by \<^verbatim>\<open>addItems\<close>, with the list
  of items below, and is not editable.
\<close>

definition combo_resize_items :: "nat list list" where
  \<comment> \<open>use original resolution, longest edge, shortest edge, custom size, centred crop\<close>
  "combo_resize_items =
     [[20351, 29992, 21407, 22987, 20998, 36776, 29575], [26368, 38271, 36793],
      [26368, 30701, 36793], [33258, 23450, 20041, 23610, 23544],
      [23621, 20013, 35009, 21098]]"

definition combo_aspect_items :: "nat list list" where
  \<comment> \<open>free ratio, then the three fixed ratios\<close>
  "combo_aspect_items =
     [[33258, 30001, 27604, 20363], ord_str ''1:1'', ord_str ''4:3'', ord_str ''16:9'']"

definition combo_spacing_unit_items :: "nat list list" where
  \<comment> \<open>pixels (px), centimetres (cm)\<close>
  "combo_spacing_unit_items =
     [[20687, 32032] @ ord_str ''(px)'', [21400, 31859] @ ord_str ''(cm)'']"

definition combo_label_format_items :: "nat list list" where
  "combo_label_format_items = [ord_str ''(a)(b)(c)'', ord_str ''a/b/c/'', ord_str ''Fig1a/Fig1b'']"

definition combo_label_pos_items :: "nat list list" where
  \<comment> \<open>top left, top right, bottom left, bottom right\<close>
  "combo_label_pos_items =
     [[24038, 19978, 35282], [21491, 19978, 35282], [24038, 19979, 35282],
      [21491, 19979, 35282]]"

definition combo_label_color_items :: "nat list list" where
  \<comment> \<open>black, white\<close>
  "combo_label_color_items = [[40657, 33394], [30333, 33394]]"

definition combo_bg_color_items :: "nat list list" where
  \<comment> \<open>white, transparent, black\<close>
  "combo_bg_color_items = [[30333, 33394], [36879, 26126], [40657, 33394]]"

text \<open>The dictionaries that the two methods build to translate these texts.\<close>

definition resize_mode_map :: "(nat list \<times> string) list" where
  "resize_mode_map =
     [([20351, 29992, 21407, 22987, 20998, 36776, 29575], ''original''),
      ([26368, 38271, 36793], ''longest_edge''),
      ([26368, 30701, 36793], ''shortest_edge''),
      ([33258, 23450, 20041, 23610, 23544], ''custom''),
      ([23621, 20013, 35009, 21098], ''crop'')]"

definition aspect_map :: "(nat list \<times> (int \<times> int) option) list" where
  "aspect_map =
     [([33258, 30001, 27604, 20363], None),
      (ord_str ''1:1'', Some (1, 1)),
      (ord_str ''4:3'', Some (4, 3)),
      (ord_str ''16:9'', Some (16, 9))]"

definition bg_color_map :: "(nat list \<times> string) list" where
  "bg_color_map =
     [([30333, 33394], ''white''), ([36879, 26126], ''transparent''),
      ([40657, 33394], ''black'')]"

definition align_map :: "(nat list \<times> string) list" where
  \<comment> \<open>centred, left aligned, right aligned\<close>
  "align_map =
     [([23621, 20013], ''center''), ([24038, 23545, 40784], ''left''),
      ([21491, 23545, 40784], ''right'')]"

definition label_format_map :: "(nat list \<times> string) list" where
  "label_format_map =
     [(ord_str ''(a)(b)(c)'', ''(a)''), (ord_str ''a/b/c/'', ''a/''),
      (ord_str ''Fig1a/Fig1b'', ''Fig1a'')]"

definition label_pos_map :: "(nat list \<times> string) list" where
  "label_pos_map =
     [([24038, 19978, 35282], ''top_left''), ([21491, 19978, 35282], ''top_right''),
      ([24038, 19979, 35282], ''bottom_left''), ([21491, 19979, 35282], ''bottom_right'')]"

definition label_color_map :: "(nat list \<times> string) list" where
  "label_color_map = [([40657, 33394], ''black''), ([30333, 33394], ''white'')]"

definition getitem :: "('k \<times> 'v) list \<Rightarrow> 'k \<Rightarrow> error + 'v" where
  \<comment> \<open>\<^verbatim>\<open>d[k]\<close>\<close>
  "getitem d k = (case map_of d k of None \<Rightarrow> Inl KeyError | Some v \<Rightarrow> Inr v)"

text \<open>
  The window: the processor, the preview last composed, and the widgets the
  two methods read.
\<close>

record main_window =
  image_processor :: processor
  current_preview :: "canvas option"
  spin_rows :: int
  spin_cols :: int
  combo_resize :: "nat list"
  spin_size :: int
  combo_aspect :: "nat list"
  spin_h_spacing :: int
  spin_v_spacing :: int
  combo_spacing_unit :: "nat list"
  combo_bg_color :: "nat list"
  radio_center :: bool
  radio_left :: bool
  spin_canvas_margin :: int
  combo_label_format :: "nat list"
  combo_label_pos :: "nat list"
  combo_font :: "nat list"
  spin_font_size :: int
  combo_label_color :: "nat list"
  spin_label_margin :: int

text \<open>
  What the toolkit guarantees of the widgets: a combo box shows one of its
  items, and the two spacing boxes hold a value of their range
  (\<^verbatim>\<open>setRange(0, 200)\<close>).
\<close>

definition widgets_in_range :: "main_window \<Rightarrow> bool" where
  "widgets_in_range win \<longleftrightarrow>
     combo_resize win \<in> set combo_resize_items \<and>
     combo_aspect win \<in> set combo_aspect_items \<and>
     combo_spacing_unit win \<in> set combo_spacing_unit_items \<and>
     combo_bg_color win \<in> set combo_bg_color_items \<and>
     combo_label_format win \<in> set combo_label_format_items \<and>
     combo_label_pos win \<in> set combo_label_pos_items \<and>
     combo_label_color win \<in> set combo_label_color_items \<and>
     0 \<le> spin_h_spacing win \<and> spin_h_spacing win \<le> 200 \<and>
     0 \<le> spin_v_spacing win \<and> spin_v_spacing win \<le> 200"

definition get_spacing_in_pixels :: "int \<Rightarrow> string \<Rightarrow> error + int" where
  \<comment> \<open>\<^verbatim>\<open>int(spacing * 37.8)\<close> for centimetres\<close>
  "get_spacing_in_pixels spacing unit =
     (if unit = ''cm''
      then and_then (int_mul_float spacing (fl (378 / 10))) (\<lambda>x. Inr (py_int x))
      else Inr spacing)"

text \<open>
  An exception inside the \<^verbatim>\<open>try\<close> of either method leaves the window as it
  is at that moment and is shown in a message box; \<open>raising\<close> keeps that
  window beside the exception.
\<close>

definition raising ::
  "main_window \<Rightarrow> error + 'a \<Rightarrow> ('a \<Rightarrow> (error \<times> main_window) + 'b) \<Rightarrow> (error \<times> main_window) + 'b"
  where
  "raising win m f = (case m of Inl e \<Rightarrow> Inl (e, win) | Inr x \<Rightarrow> f x)"

definition set_images :: "main_window \<Rightarrow> image list \<Rightarrow> main_window" where
  \<comment> \<open>\<^verbatim>\<open>self.image_processor.images = ...\<close>\<close>
  "set_images win imgs = win\<lparr>image_processor := (image_processor win)\<lparr>stored_images := imgs\<rparr>\<rparr>"

text \<open>
  The passage the two methods share word for word: the spacing, the
  background, the alignment, the composition and the labels.  It reads the
  images from the processor, like the two methods it calls.
\<close>

definition compose_and_label ::
  "environment \<Rightarrow> main_window \<Rightarrow> int \<Rightarrow> int \<Rightarrow> (error \<times> main_window) + canvas option" where
  "compose_and_label env win rows cols =
     raising win
       (if combo_spacing_unit win = [21400, 31859] @ ord_str ''(cm)''
        then and_then (get_spacing_in_pixels (spin_h_spacing win) ''cm'') (\<lambda>h.
             and_then (get_spacing_in_pixels (spin_v_spacing win) ''cm'') (\<lambda>v. Inr (h, v)))
        else Inr (spin_h_spacing win, spin_v_spacing win))
       (\<lambda>spacing.
     let h_spacing = fst spacing; v_spacing = snd spacing
     in
     raising win (getitem bg_color_map (combo_bg_color win)) (\<lambda>bg_color.
     raising win
       (if radio_center win then getitem align_map [23621, 20013]
        else if radio_left win then getitem align_map [24038, 23545, 40784]
        else getitem align_map [21491, 23545, 40784])
       (\<lambda>align.
     let combined =
           create_combined_image (known_colour env) (stored_images (image_processor win))
             rows cols h_spacing v_spacing bg_color (spin_canvas_margin win) align
     in
     raising win (getitem label_format_map (combo_label_format win)) (\<lambda>label_format.
     raising win (getitem label_pos_map (combo_label_pos win)) (\<lambda>label_position.
     raising win (getitem label_color_map (combo_label_color win)) (\<lambda>label_color.
       Inr (add_labels (known_colour env)
              (text_bbox env (combo_font win) (spin_font_size win))
              (stored_images (image_processor win)) combined rows cols label_format
              label_position label_color (spin_label_margin win) h_spacing v_spacing
              (spin_canvas_margin win) align)))))))"

text \<open>
  The end of \<^verbatim>\<open>update_preview\<close>: the composed picture is scaled to the
  preview area when it is larger.  Only the exception it may raise matters
  here; a missing picture has no \<^verbatim>\<open>width\<close>.
\<close>

definition show_preview :: "int \<times> int \<Rightarrow> canvas option \<Rightarrow> error option" where
  "show_preview area combined =
     (case combined of
        None \<Rightarrow> Some AttributeError
      | Some cv \<Rightarrow>
          if fst area < cwidth cv \<or> snd area < cheight cv
          then
            case and_then (true_div (fst area) (cwidth cv)) (\<lambda>a.
                 and_then (true_div (snd area) (cheight cv)) (\<lambda>b.
                 let ratio = min a b
                 in and_then (int_mul_float (cwidth cv) ratio) (\<lambda>w.
                    and_then (int_mul_float (cheight cv) ratio) (\<lambda>h.
                      let new_width = py_int w; new_height = py_int h
                      in if new_width = cwidth cv \<and> new_height = cheight cv then Inr ()
                         else if new_width < - (2 ^ 31) \<or> 2 ^ 31 \<le> new_width
                                 \<or> new_height < - (2 ^ 31) \<or> 2 ^ 31 \<le> new_height
                         then Inl OverflowError
                         else if new_width < 1 \<or> new_height < 1 then Inl ValueError
                         else Inr ())))) of
              Inl e \<Rightarrow> Some e
            | Inr u \<Rightarrow> None
          else None)"

definition preview_body :: "environment \<Rightarrow> main_window \<Rightarrow> (error \<times> main_window) + main_window"
  where
  "preview_body env win =
     (let rows = spin_rows win; cols = spin_cols win
      in
      raising win (getitem resize_mode_map (combo_resize win)) (\<lambda>resize_mode.
      let sz = spin_size win
      in
      raising win (getitem aspect_map (combo_aspect win)) (\<lambda>aspect_ratio.
      let resized_images =
            map (\<lambda>img. fst (resize_image (can_allocate env) img resize_mode sz aspect_ratio True))
              (stored_images (image_processor win));
          original_images = stored_images (image_processor win);
          win1 = set_images win resized_images
      in
      case compose_and_label env win1 rows cols of
        Inl raised \<Rightarrow> Inl raised
      | Inr combined \<Rightarrow>
          let win2 = set_images win1 original_images;
              win3 = win2\<lparr>current_preview := combined\<rparr>
          in case show_preview (preview_size env) combined of
               Some e \<Rightarrow> Inl (e, win3)
             | None \<Rightarrow> Inr win3)))"

text \<open>
  \<^verbatim>\<open>update_preview\<close>: nothing happens without images; otherwise the window
  after the call and the exception reported in the message box, if any.
\<close>

definition update_preview :: "environment \<Rightarrow> main_window \<Rightarrow> main_window \<times> error option" where
  "update_preview env win =
     (if stored_images (image_processor win) = [] then (win, None)
      else case preview_body env win of
             Inl (e, held) \<Rightarrow> (held, Some e)
           | Inr win1 \<Rightarrow> (win1, None))"

text \<open>
  \<^verbatim>\<open>output_image\<close> opens every file of \<^verbatim>\<open>image_paths\<close> again, applies the
  EXIF orientation and resizes the full picture with the slow filter.
\<close>

definition reopen ::
  "environment \<Rightarrow> string \<Rightarrow> int \<Rightarrow> (int \<times> int) option \<Rightarrow> path \<Rightarrow> error + image" where
  "reopen env resize_mode sz aspect_ratio img_path =
     and_then (image_open env img_path) (\<lambda>img0.
       let original_img = (case exif_transpose env img0 of Inl e \<Rightarrow> img0 | Inr t \<Rightarrow> t)
       in Inr (fst (resize_image (can_allocate env) original_img resize_mode sz aspect_ratio False)))"

fun for_each :: "('a \<Rightarrow> error + 'b) \<Rightarrow> 'a list \<Rightarrow> error + 'b list" where
  "for_each f [] = Inr []"
| "for_each f (x # xs) =
     (case f x of
        Inl e \<Rightarrow> Inl e
      | Inr y \<Rightarrow> (case for_each f xs of Inl e \<Rightarrow> Inl e | Inr ys \<Rightarrow> Inr (y # ys)))"

definition export_body ::
  "environment \<Rightarrow> main_window \<Rightarrow> (error \<times> main_window) + main_window \<times> canvas option" where
  "export_body env win =
     (let rows = spin_rows win; cols = spin_cols win
      in
      raising win (getitem resize_mode_map (combo_resize win)) (\<lambda>resize_mode.
      let sz = spin_size win
      in
      raising win (getitem aspect_map (combo_aspect win)) (\<lambda>aspect_ratio.
      raising win
        (for_each (reopen env resize_mode sz aspect_ratio) (image_paths (image_processor win)))
        (\<lambda>resized_images.
      let original_images = stored_images (image_processor win);
          win1 = set_images win resized_images
      in
      case compose_and_label env win1 rows cols of
        Inl raised \<Rightarrow> Inl raised
      | Inr combined \<Rightarrow> Inr (set_images win1 original_images, combined)))))"

text \<open>
  \<^verbatim>\<open>output_image\<close> with the path chosen in the file dialog (empty when the
  dialog was cancelled).  The result is the window after the call and what
  happened: nothing, an exception reported in the message box, or the picture
  that was handed to \<^verbatim>\<open>save_image\<close>, which reports its own failures in its
  return value.
\<close>

definition output_image ::
  "environment \<Rightarrow> path \<Rightarrow> main_window \<Rightarrow> main_window \<times> (error + canvas option) option" where
  "output_image env file_path win =
     (if current_preview win = None then (win, None)
      else if file_path = [] then (win, None)
      else case export_body env win of
             Inl (e, held) \<Rightarrow> (held, Some (Inl e))
           | Inr (win1, combined) \<Rightarrow> (win1, Some (Inr combined)))"

text \<open>
  \<^verbatim>\<open>MainWindow.load_images\<close>: the files are handed to the processor and, when
  it reports success, the preview is composed.
\<close>

definition window_load_images :: "environment \<Rightarrow> path list \<Rightarrow> main_window \<Rightarrow> main_window" where
  "window_load_images env files win =
     (case load_images env (image_processor win) files of
        (p1, Inl errors) \<Rightarrow> win\<lparr>image_processor := p1\<rparr>
      | (p1, Inr counts) \<Rightarrow> fst (update_preview env (win\<lparr>image_processor := p1\<rparr>)))"

section \<open>A session\<close>

text \<open>
  The window as it is created: no image, no preview, every combo box on its
  first item and every spin box on the value given to \<^verbatim>\<open>setValue\<close>.  The
  environment holds one file, a picture of 4000 by 3000 pixels.
\<close>

definition photo :: image where
  "photo = \<lparr>width = 4000, height = 3000, mode = ''RGB'', px = Source 0\<rparr>"

definition demo_environment :: environment where
  "demo_environment =
     \<lparr>path_exists = (\<lambda>p. p = ''a.png''),
      splitext_lower = (\<lambda>p. ''.png''),
      image_open = (\<lambda>p. if p = ''a.png'' then Inr photo else Inl OSError),
      exif_transpose = Inr,
      render_eps = (\<lambda>p. Inl OSError),
      image_convert = (\<lambda>img m. Inr (img\<lparr>mode := m\<rparr>)),
      known_colour = (\<lambda>c. c = ''white'' \<or> c = ''black''),
      text_bbox = (\<lambda>font font_size text. (0, 0, 8 * int (length text), 12)),
      preview_size = (400, 400),
      can_allocate = ample_memory\<rparr>"

definition start_window :: main_window where
  "start_window =
     \<lparr>image_processor = \<lparr>stored_images = [], image_paths = []\<rparr>,
      current_preview = None,
      spin_rows = 2,
      spin_cols = 2,
      combo_resize = [20351, 29992, 21407, 22987, 20998, 36776, 29575],
      spin_size = 800,
      combo_aspect = [33258, 30001, 27604, 20363],
      spin_h_spacing = 20,
      spin_v_spacing = 20,
      combo_spacing_unit = [20687, 32032] @ ord_str ''(px)'',
      combo_bg_color = [30333, 33394],
      radio_center = True,
      radio_left = False,
      spin_canvas_margin = 10,
      combo_label_format = ord_str ''(a)(b)(c)'',
      combo_label_pos = [24038, 19978, 35282],
      combo_font = ord_str ''Arial'',
      spin_font_size = 12,
      combo_label_color = [40657, 33394],
      spin_label_margin = 10\<rparr>"

definition demo_window :: main_window where
  \<comment> \<open>after the file has been imported\<close>
  "demo_window = window_load_images demo_environment [''a.png''] start_window"

definition photo_thumbnail :: image where
  "photo_thumbnail =
     \<lparr>width = 1024, height = 768, mode = ''RGB'', px = Thumbnail LANCZOS 1024 768 (Source 0)\<rparr>"

definition demo_preview :: canvas where
  "demo_preview =
     \<lparr>cwidth = 1064, cheight = 808, cmode = ''RGBA'', fill = ''white'',
      pastes = [(photo_thumbnail, 10, 10, False)],
      labels = [(ord_str ''(a)'', 20, 20, ''black'')]\<rparr>"

definition demo_export :: canvas where
  "demo_export =
     \<lparr>cwidth = 4040, cheight = 3040, cmode = ''RGBA'', fill = ''white'',
      pastes = [(photo, 10, 10, False)],
      labels = [(ord_str ''(a)'', 20, 20, ''black'')]\<rparr>"

section \<open>Rounding\<close>

text \<open>The overflow threshold, in a form that evaluates quickly.\<close>

lemma to_float_code [code]:
  "to_float q =
     (if ((((((((((2::rat)\<^sup>2)\<^sup>2)\<^sup>2)\<^sup>2)\<^sup>2)\<^sup>2)\<^sup>2)\<^sup>2)\<^sup>2)\<^sup>2 \<le> \<bar>fl q\<bar>
      then Inl OverflowError else Inr (fl q))"
proof -
  have "((((((((((2::rat)\<^sup>2)\<^sup>2)\<^sup>2)\<^sup>2)\<^sup>2)\<^sup>2)\<^sup>2)\<^sup>2)\<^sup>2)\<^sup>2 = 2 ^ 1024"
    by (simp only: power_mult[symmetric]) simp
  then show ?thesis by (simp only: to_float_def)
qed

lemma bitlen_nonneg: "0 \<le> bitlen n"
  by (induction n rule: bitlen.induct) (subst bitlen.simps, auto)

lemma bitlen_pos: "0 < n \<Longrightarrow> 1 \<le> bitlen n"
  using bitlen_nonneg[of "n div 2"] by (subst bitlen.simps) simp

lemma bitlen_bounds:
  "0 < n \<Longrightarrow> 2 ^ nat (bitlen n - 1) \<le> n \<and> n < 2 ^ nat (bitlen n)"
proof (induction n rule: bitlen.induct)
  case (1 n)
  show ?case
  proof (cases "n = 1")
    case True
    then show ?thesis by (subst (1 2) bitlen.simps) (simp add: bitlen.simps[of 0])
  next
    case False
    with 1(2) have half: "0 < n div 2" by simp
    then have IH: "2 ^ nat (bitlen (n div 2) - 1) \<le> n div 2" "n div 2 < 2 ^ nat (bitlen (n div 2))"
      using 1(1) 1(2) by simp_all
    have bl: "bitlen n = bitlen (n div 2) + 1"
      using 1(2) by (subst bitlen.simps) simp
    have p: "1 \<le> bitlen (n div 2)" using half by (rule bitlen_pos)
    have e1: "nat (bitlen n - 1) = Suc (nat (bitlen (n div 2) - 1))"
      using bl p by simp
    have e2: "nat (bitlen n) = Suc (nat (bitlen (n div 2)))"
      using bl p by simp
    have "2 * 2 ^ nat (bitlen (n div 2) - 1) \<le> 2 * (n div 2)" using IH(1) by simp
    also have "\<dots> \<le> n" by simp
    finally have lo: "2 ^ nat (bitlen n - 1) \<le> n" unfolding e1 by simp
    have "n div 2 + 1 \<le> 2 ^ nat (bitlen (n div 2))" using IH(2) by simp
    then have "2 * (n div 2) + 2 \<le> 2 * 2 ^ nat (bitlen (n div 2))" by simp
    moreover have "n < 2 * (n div 2) + 2" by presburger
    ultimately have hi: "n < 2 ^ nat (bitlen n)" unfolding e2 by simp
    show ?thesis using lo hi by simp
  qed
qed


lemma ilog2_bounds:
  assumes "0 < q"
  shows "2 powi ilog2 q \<le> q \<and> q < 2 powi (ilog2 q + 1)"
proof (cases "1 \<le> q")
  case True
  define n where "n = \<lfloor>q\<rfloor>"
  have n: "1 \<le> n" unfolding n_def using True by simp
  have k: "0 \<le> bitlen n - 1" using bitlen_pos[of n] n by simp
  have il: "ilog2 q = bitlen n - 1" using True by (simp add: ilog2_def n_def)
  from bitlen_bounds[of n] n have b: "2 ^ nat (bitlen n - 1) \<le> n" "n < 2 ^ nat (bitlen n)"
    by simp_all
  have "(2::rat) powi (bitlen n - 1) = of_int (2 ^ nat (bitlen n - 1))"
    using k by (simp add: power_int_def)
  also have "\<dots> \<le> of_int n" using b(1) by (simp only: of_int_le_iff)
  also have "\<dots> \<le> q" unfolding n_def by simp
  finally have lo: "2 powi ilog2 q \<le> q" unfolding il .
  have "q < of_int (n + 1)" unfolding n_def by linarith
  also have "\<dots> \<le> of_int (2 ^ nat (bitlen n))"
  proof -
    have "n + 1 \<le> 2 ^ nat (bitlen n)" using b(2) by simp
    then show ?thesis by (simp only: of_int_le_iff)
  qed
  also have "\<dots> = (2::rat) powi (bitlen n - 1 + 1)"
    using k by (simp add: power_int_def)
  finally have hi: "q < 2 powi (ilog2 q + 1)" unfolding il .
  show ?thesis using lo hi by simp
next
  case False
  define y where "y = 1 / q"
  define n where "n = \<lceil>y\<rceil> - 1"
  have y1: "1 < y" unfolding y_def using False assms by simp
  have n: "1 \<le> n" unfolding n_def using y1 by (simp add: less_ceiling_iff)
  have ny: "of_int n < y" "y \<le> of_int n + 1"
    unfolding n_def by linarith+
  define b where "b = bitlen n"
  have b1: "1 \<le> b" unfolding b_def using bitlen_pos[of n] n by simp
  have il: "ilog2 q = - b" using False by (simp add: ilog2_def n_def y_def b_def)
  from bitlen_bounds[of n] n have bb: "2 ^ nat (b - 1) \<le> n" "n < 2 ^ nat b"
    unfolding b_def by simp_all
  have "y \<le> of_int (n + 1)" using ny(2) by simp
  also have "\<dots> \<le> of_int (2 ^ nat b)"
  proof -
    have "n + 1 \<le> 2 ^ nat b" using bb(2) by simp
    then show ?thesis by (simp only: of_int_le_iff)
  qed
  finally have yle: "y \<le> 2 ^ nat b" by simp
  have "(2::rat) ^ nat (b - 1) = of_int (2 ^ nat (b - 1))" by simp
  also have "\<dots> \<le> of_int n" using bb(1) by (simp only: of_int_le_iff)
  also have "\<dots> < y" by (rule ny(1))
  finally have ygt: "2 ^ nat (b - 1) < y" .
  have q: "q = 1 / y" unfolding y_def by simp
  have "(2::rat) powi (- b) = 1 / 2 ^ nat b"
    using b1 by (simp add: power_int_def field_simps)
  also have "\<dots> \<le> 1 / y" using yle y1 by (simp add: frac_le)
  finally have lo: "2 powi ilog2 q \<le> q" by (simp only: il q[symmetric])
  have "1 / y < 1 / 2 ^ nat (b - 1)" using ygt by (simp add: frac_less2)
  also have "\<dots> = (2::rat) powi (- b + 1)"
  proof (cases "b = 1")
    case True
    then show ?thesis by simp
  next
    case False
    then have "- b + 1 < 0" "nat (b - 1) = nat (- (- b + 1))" using b1 by simp_all
    then show ?thesis by (simp add: power_int_def field_simps)
  qed
  finally have hi: "q < 2 powi (ilog2 q + 1)" by (simp only: il q[symmetric])
  show ?thesis using lo hi by simp
qed


lemma ilog2_ge:
  assumes "0 < q" "2 powi k \<le> q"
  shows "k \<le> ilog2 q"
proof (rule ccontr)
  assume "\<not> k \<le> ilog2 q"
  then have "ilog2 q + 1 \<le> k" by simp
  then have "(2::rat) powi (ilog2 q + 1) \<le> 2 powi k"
    by (rule power_int_increasing) simp
  then show False using ilog2_bounds[OF assms(1)] assms(2) by simp
qed

lemma ilog2_less:
  assumes "0 < q" "q < 2 powi k"
  shows "ilog2 q < k"
proof (rule ccontr)
  assume "\<not> ilog2 q < k"
  then have "k \<le> ilog2 q" by simp
  then have "(2::rat) powi k \<le> 2 powi ilog2 q"
    by (rule power_int_increasing) simp
  then show False using ilog2_bounds[OF assms(1)] assms(2) by simp
qed

lemma round_half_even_error: "\<bar>of_int (round_half_even x) - x\<bar> \<le> 1 / 2"
proof -
  define d where "d = x - of_int \<lfloor>x\<rfloor>"
  have d: "0 \<le> d" "d < 1" unfolding d_def by linarith+
  have x: "x = of_int \<lfloor>x\<rfloor> + d" unfolding d_def by simp
  consider "round_half_even x = \<lfloor>x\<rfloor>" "d \<le> 1 / 2"
    | "round_half_even x = \<lfloor>x\<rfloor> + 1" "1 / 2 \<le> d"
    unfolding round_half_even_def Let_def d_def[symmetric]
    by (cases "d < 1 / 2"; cases "1 / 2 < d"; cases "even \<lfloor>x\<rfloor>") simp_all
  then show ?thesis
  proof cases
    case 1
    have "of_int (round_half_even x) - x = - d" unfolding 1(1) using x by simp
    then show ?thesis using d 1(2) by simp
  next
    case 2
    have "of_int (round_half_even x) - x = 1 - d" unfolding 2(1) using x by simp
    then show ?thesis using d 2(2) by simp
  qed
qed

lemma round_half_even_of_int: "round_half_even (of_int n) = n"
  by (simp add: round_half_even_def)

lemma fl_error_ulp:
  "\<bar>fl q - q\<bar> \<le> 2 powi ulp_exp q / 2"
proof (cases "q = 0")
  case True
  then show ?thesis by (simp add: fl_def)
next
  case False
  define p :: rat where "p = 2 powi ulp_exp q"
  have p: "0 < p" unfolding p_def by simp
  have "fl q - q = (of_int (round_half_even (q / p)) - q / p) * p"
    using False p by (simp add: fl_def p_def field_simps)
  then have "\<bar>fl q - q\<bar> = \<bar>of_int (round_half_even (q / p)) - q / p\<bar> * p"
    using p by (simp add: abs_mult)
  also have "\<dots> \<le> (1 / 2) * p"
    using round_half_even_error[of "q / p"] p by (intro mult_right_mono) simp_all
  finally show ?thesis by (simp add: p_def)
qed

lemma fl_rel_error:
  assumes "2 powi (- 1022) \<le> \<bar>q\<bar>"
  shows "\<bar>fl q - q\<bar> \<le> \<bar>q\<bar> / 2 ^ 53"
proof -
  have pos: "0 < \<bar>q\<bar>"
    using assms zero_less_power_int[of "2::rat" "- 1022"] by linarith
  have "- 1022 \<le> ilog2 \<bar>q\<bar>" using pos assms by (rule ilog2_ge)
  then have e: "ulp_exp q = ilog2 \<bar>q\<bar> - 52" by (simp add: ulp_exp_def)
  have "(2::rat) powi ulp_exp q = 2 powi ilog2 \<bar>q\<bar> * 2 powi (- 52)"
    unfolding e by (simp add: power_int_diff power_int_minus_divide)
  also have "\<dots> \<le> \<bar>q\<bar> * 2 powi (- 52)"
    using ilog2_bounds[OF pos] by (intro mult_right_mono) simp_all
  finally have "(2::rat) powi ulp_exp q / 2 \<le> \<bar>q\<bar> * 2 powi (- 52) / 2" by simp
  also have "\<dots> = \<bar>q\<bar> / 2 ^ 53" by (simp add: power_int_minus_divide)
  finally show ?thesis using fl_error_ulp[of q] by linarith
qed

lemma fl_int_exact:
  assumes "\<bar>n\<bar> < 2 ^ 53"
  shows "fl (of_int n) = of_int n"
proof (cases "n = 0")
  case True
  then show ?thesis by (simp add: fl_def)
next
  case False
  let ?q = "of_int n :: rat"
  have pos: "0 < \<bar>?q\<bar>" using False by simp
  have "\<bar>?q\<bar> < 2 powi 53"
  proof -
    have "of_int \<bar>n\<bar> < (of_int (2 ^ 53) :: rat)" using assms by (simp only: of_int_less_iff)
    then show ?thesis by simp
  qed
  then have "ilog2 \<bar>?q\<bar> < 53" using pos by (intro ilog2_less)
  then have e: "ulp_exp ?q \<le> 0" by (simp add: ulp_exp_def)
  define k where "k = nat (- ulp_exp ?q)"
  have pw: "(2::rat) powi ulp_exp ?q = 1 / 2 ^ k"
    using e by (cases "ulp_exp ?q = 0") (simp_all add: k_def power_int_def field_simps)
  have "?q / 2 powi ulp_exp ?q = of_int (n * 2 ^ k)"
    unfolding pw by simp
  then have "round_half_even (?q / 2 powi ulp_exp ?q) = n * 2 ^ k"
    by (simp only: round_half_even_of_int)
  then show ?thesis
    using False by (simp add: fl_def pw)
qed

lemma to_float_in_range:
  assumes "2 powi (- 1022) \<le> \<bar>q\<bar>" "\<bar>q\<bar> \<le> 2 ^ 1000"
  shows "to_float q = Inr (fl q)"
proof -
  have "\<bar>fl q\<bar> \<le> \<bar>q\<bar> + \<bar>fl q - q\<bar>" by simp
  also have "\<dots> \<le> \<bar>q\<bar> + \<bar>q\<bar> / 2 ^ 53" using fl_rel_error[OF assms(1)] by simp
  also have "\<dots> \<le> \<bar>q\<bar> + \<bar>q\<bar>" by (simp add: field_simps)
  also have "\<dots> \<le> 2 ^ 1000 + 2 ^ 1000" using assms(2) by simp
  also have "\<dots> < (2::rat) ^ 1024" by simp
  finally show ?thesis by (simp add: to_float_def)
qed

lemma tiny_le: "(2::rat) powi (- 1022) \<le> 1 / 2 ^ 100"
  by (simp add: power_int_minus_divide)

lemma fl_between:
  assumes "1 / 2 ^ 100 \<le> q"
  shows "q * (1 - 1 / 2 ^ 53) \<le> fl q" "fl q \<le> q * (1 + 1 / 2 ^ 53)"
proof -
  have q: "0 < q" using assms by (rule less_le_trans[rotated]) simp
  have "2 powi (- 1022) \<le> \<bar>q\<bar>" using assms tiny_le q by linarith
  from fl_rel_error[OF this] have "\<bar>fl q - q\<bar> \<le> q / 2 ^ 53" using q by simp
  then have "fl q - q \<le> q / 2 ^ 53" "q - fl q \<le> q / 2 ^ 53" by linarith+
  then show "q * (1 - 1 / 2 ^ 53) \<le> fl q" "fl q \<le> q * (1 + 1 / 2 ^ 53)"
    by (simp_all add: algebra_simps)
qed

lemma to_float_moderate:
  assumes "1 / 2 ^ 100 \<le> q" "q \<le> 2 ^ 100"
  shows "to_float q = Inr (fl q)"
proof -
  have q: "0 < q" using assms(1) by (rule less_le_trans[rotated]) simp
  have "(2::rat) ^ 100 \<le> 2 ^ 1000" by simp
  then have "\<bar>q\<bar> \<le> 2 ^ 1000" using assms(2) q by linarith
  moreover have "2 powi (- 1022) \<le> \<bar>q\<bar>" using assms(1) tiny_le q by linarith
  ultimately show ?thesis by (intro to_float_in_range)
qed

lemma float_of_int_exact:
  assumes "\<bar>n\<bar> < 2 ^ 53"
  shows "float_of_int n = Inr (of_int n)"
proof -
  have "\<bar>of_int n :: rat\<bar> < 2 ^ 53"
  proof -
    have "of_int \<bar>n\<bar> < (of_int (2 ^ 53) :: rat)" using assms by (simp only: of_int_less_iff)
    then show ?thesis by simp
  qed
  then have "\<not> (2::rat) ^ 1024 \<le> \<bar>of_int n\<bar>" by simp
  then show ?thesis
    by (simp add: float_of_int_def to_float_def fl_int_exact[OF assms])
qed


lemma of_int_bounds:
  fixes n :: int
  assumes "1 \<le> n" "n < 2 ^ 31"
  shows "(1::rat) \<le> of_int n" "(of_int n :: rat) < 2 ^ 31"
proof -
  show "(1::rat) \<le> of_int n" using assms(1) by simp
  have "(of_int n :: rat) < of_int (2 ^ 31)" using assms(2) by (simp only: of_int_less_iff)
  then show "(of_int n :: rat) < 2 ^ 31" by simp
qed

lemma scale_factor:
  fixes S m :: int
  assumes "1 \<le> m" "m < 2 ^ 31" "1 \<le> S" "S < 2 ^ 31"
  shows "true_div S m = Inr (fl (of_int S / of_int m))"
    and "of_int S / of_int m * (1 - 1 / 2 ^ 53) \<le> fl (of_int S / of_int m)"
    and "fl (of_int S / of_int m) \<le> of_int S / of_int m * (1 + 1 / 2 ^ 53)"
    and "1 / 2 ^ 31 \<le> (of_int S / of_int m :: rat)"
    and "(of_int S / of_int m :: rat) \<le> 2 ^ 31"
proof -
  let ?b = "of_int S / of_int m :: rat"
  note M = of_int_bounds[OF assms(1,2)] and S = of_int_bounds[OF assms(3,4)]
  have "1 / 2 ^ 31 \<le> 1 / (of_int m :: rat)" using M by (intro divide_left_mono) simp_all
  also have "\<dots> \<le> ?b" using M S by (intro divide_right_mono) simp_all
  finally show lo: "1 / 2 ^ 31 \<le> ?b" .
  have "?b \<le> of_int S / 1" using M S by (intro divide_left_mono) simp_all
  also have "\<dots> \<le> 2 ^ 31" using S by simp
  finally show hi: "?b \<le> 2 ^ 31" .
  have lo': "1 / 2 ^ 100 \<le> ?b" using lo by (rule order_trans[rotated]) simp
  have hi': "?b \<le> 2 ^ 100" using hi by (rule order_trans) simp
  show "true_div S m = Inr (fl ?b)"
    using assms(1) by (simp add: true_div_def to_float_moderate[OF lo' hi'])
  show "?b * (1 - 1 / 2 ^ 53) \<le> fl ?b" "fl ?b \<le> ?b * (1 + 1 / 2 ^ 53)"
    by (rule fl_between[OF lo'])+
qed

lemma scaled_side:
  fixes n S m :: int
  assumes "1 \<le> n" "n < 2 ^ 31" "1 \<le> m" "m < 2 ^ 31" "1 \<le> S" "S < 2 ^ 31"
  defines "s \<equiv> fl (of_int S / of_int m)"
  defines "a \<equiv> of_int n * of_int S / of_int m :: rat"
  shows "int_mul_float n s = Inr (fl (of_int n * s))"
    and "a * (1 - 1 / 2 ^ 53) ^ 2 \<le> fl (of_int n * s)"
    and "fl (of_int n * s) \<le> a * (1 + 1 / 2 ^ 53) ^ 2"
proof -
  let ?b = "of_int S / of_int m :: rat"
  let ?u = "1 / 2 ^ 53 :: rat"
  note N = of_int_bounds[OF assms(1,2)]
  note B = scale_factor[OF assms(3-6)]
  have s_lo: "?b * (1 - ?u) \<le> s" and s_hi: "s \<le> ?b * (1 + ?u)"
    unfolding s_def by (rule B(2), rule B(3))
  have b_pos: "0 < ?b" using B(4) by (rule less_le_trans[rotated]) simp
  have "(1::rat) / 2 ^ 32 \<le> 1 / 2 ^ 31 * (1 - ?u)" by simp
  also have "\<dots> \<le> ?b * (1 - ?u)" using B(4) by (intro mult_right_mono) simp_all
  also have "\<dots> \<le> s" by (rule s_lo)
  finally have s_min: "1 / 2 ^ 32 \<le> s" .
  have "s \<le> ?b * (1 + ?u)" by (rule s_hi)
  also have "\<dots> \<le> 2 ^ 31 * (1 + ?u)" using B(5) by (intro mult_right_mono) simp_all
  also have "\<dots> \<le> 2 ^ 32" by simp
  finally have s_max: "s \<le> 2 ^ 32" .
  have s_pos: "0 < s" using s_min by (rule less_le_trans[rotated]) simp
  let ?y = "of_int n * s"
  have "1 * (1 / 2 ^ 32) \<le> ?y" using N(1) s_min s_pos by (intro mult_mono) simp_all
  then have y_lo: "1 / 2 ^ 100 \<le> ?y" by (rule order_trans[rotated]) simp
  have "?y \<le> 2 ^ 31 * 2 ^ 32" using N s_max s_pos by (intro mult_mono) simp_all
  then have y_hi: "?y \<le> 2 ^ 100" by (rule order_trans) simp
  have n53: "\<bar>n\<bar> < 2 ^ 53" using assms(1,2) by simp
  show "int_mul_float n s = Inr (fl ?y)"
    by (simp add: int_mul_float_def float_of_int_exact[OF n53] and_then_def
                  to_float_moderate[OF y_lo y_hi])
  have a: "a = of_int n * ?b" unfolding a_def by simp
  have n_pos: "0 < (of_int n :: rat)" using N(1) by simp
  have "a * (1 - ?u) ^ 2 = (of_int n * (?b * (1 - ?u))) * (1 - ?u)"
    unfolding a by (simp add: power2_eq_square algebra_simps)
  also have "\<dots> \<le> ?y * (1 - ?u)"
    using s_lo n_pos by (intro mult_right_mono mult_left_mono) simp_all
  also have "\<dots> \<le> fl ?y" by (rule fl_between(1)[OF y_lo])
  finally show "a * (1 - ?u) ^ 2 \<le> fl ?y" .
  have "fl ?y \<le> ?y * (1 + ?u)" by (rule fl_between(2)[OF y_lo])
  also have "\<dots> \<le> (of_int n * (?b * (1 + ?u))) * (1 + ?u)"
    using s_hi n_pos by (intro mult_right_mono mult_left_mono) simp_all
  also have "\<dots> = a * (1 + ?u) ^ 2"
    unfolding a by (simp add: power2_eq_square algebra_simps)
  finally show "fl ?y \<le> a * (1 + ?u) ^ 2" .
qed


lemma py_int_nonneg: "0 \<le> x \<Longrightarrow> py_int x = \<lfloor>x\<rfloor>"
  by (simp add: py_int_def)

lemma scaled_side_px:
  fixes n S m :: int
  assumes "1 \<le> n" "n \<le> m" "m < 2 ^ 31" "1 \<le> S" "S < 2 ^ 31"
  defines "x \<equiv> fl (of_int n * fl (of_int S / of_int m))"
  defines "a \<equiv> of_int n * of_int S / of_int m :: rat"
  shows "0 \<le> py_int x" and "py_int x \<le> S"
    and "a * (1 - 1 / 2 ^ 53) ^ 2 - 1 < of_int (py_int x)"
    and "of_int (py_int x) \<le> a * (1 + 1 / 2 ^ 53) ^ 2"
    and "n = m \<Longrightarrow> S - 1 \<le> py_int x"
proof -
  let ?u = "1 / 2 ^ 53 :: rat"
  have m1: "1 \<le> m" and n31: "n < 2 ^ 31" using assms(1-3) by simp_all
  note side = scaled_side[OF assms(1) n31 m1 assms(3-5)]
  have lo: "a * (1 - ?u) ^ 2 \<le> x" and hi: "x \<le> a * (1 + ?u) ^ 2"
    unfolding x_def a_def by (rule side(2), rule side(3))
  note N = of_int_bounds[OF assms(1) n31] and M = of_int_bounds[OF m1 assms(3)]
    and SS = of_int_bounds[OF assms(4,5)]
  have a_pos: "0 < a" unfolding a_def using N M SS by simp
  have "a = of_int S * (of_int n / of_int m)" unfolding a_def by simp
  also have "\<dots> \<le> of_int S * 1"
    using assms(2) M SS by (intro mult_left_mono) simp_all
  finally have a_le: "a \<le> of_int S" by simp
  have x_nonneg: "0 \<le> x"
  proof -
    have "0 \<le> a * (1 - ?u) ^ 2" using a_pos by simp
    then show ?thesis using lo by linarith
  qed
  then have px: "py_int x = \<lfloor>x\<rfloor>" by (rule py_int_nonneg)
  show "0 \<le> py_int x" unfolding px using x_nonneg by simp
  have "x \<le> of_int S * (1 + ?u) ^ 2"
    using hi a_le by (rule order_trans[OF _ mult_right_mono]) simp
  also have "\<dots> = of_int S + of_int S * (2 * ?u + ?u ^ 2)"
    by (simp add: power2_eq_square algebra_simps)
  also have "\<dots> < of_int S + 2 ^ 31 * (2 * ?u + ?u ^ 2)"
  proof -
    have "0 < 2 * ?u + ?u ^ 2" by (simp add: power2_eq_square)
    then show ?thesis
      using SS(2) by (intro add_strict_left_mono mult_strict_right_mono)
  qed
  also have "\<dots> < of_int S + 1" by (simp add: power2_eq_square)
  finally have "x < of_int (S + 1)" by simp
  then have "\<lfloor>x\<rfloor> < S + 1" by (simp only: floor_less_iff)
  then show "py_int x \<le> S" unfolding px by simp
  have "x - 1 < of_int \<lfloor>x\<rfloor>" by linarith
  then show "a * (1 - ?u) ^ 2 - 1 < of_int (py_int x)" unfolding px using lo by linarith
  have "of_int \<lfloor>x\<rfloor> \<le> x" by simp
  then show "of_int (py_int x) \<le> a * (1 + ?u) ^ 2" unfolding px using hi by linarith
  show "S - 1 \<le> py_int x" if "n = m"
  proof -
    have a: "a = of_int S" unfolding a_def using that M by simp
    have "of_int S - 1 \<le> of_int S - 2 ^ 31 * (2 * ?u)" by simp
    also have "\<dots> \<le> of_int S - of_int S * (2 * ?u)"
      using SS(2) by (intro diff_left_mono mult_right_mono) simp_all
    also have "\<dots> \<le> of_int S * (1 - ?u) ^ 2"
      using SS(1) by (simp add: power2_eq_square algebra_simps)
    also have "\<dots> \<le> x" using lo unfolding a .
    finally have "of_int (S - 1) \<le> x" by simp
    then have "S - 1 \<le> \<lfloor>x\<rfloor>" by (simp only: le_floor_iff)
    then show ?thesis unfolding px .
  qed
qed

section \<open>Canvas size\<close>

lemma set_py_range: "set (py_range n) = {i. 0 \<le> i \<and> i < n}"
proof (intro set_eqI iffI)
  fix i assume "i \<in> set (py_range n)"
  then show "i \<in> {i. 0 \<le> i \<and> i < n}" by (auto simp: py_range_def)
next
  fix i assume "i \<in> {i. 0 \<le> i \<and> i < n}"
  then have "nat i < nat n" "int (nat i) = i" by simp_all
  then show "i \<in> set (py_range n)"
    unfolding py_range_def set_map set_upt by (metis atLeastLessThan_iff imageI le0)
qed

lemma Max_insert_max:
  assumes "finite S"
  shows "Max (insert (max a b) S) = Max (insert (a::int) (insert b S))"
proof (cases "S = {}")
  case True
  then show ?thesis by simp
next
  case False
  then show ?thesis using assms by (simp add: max.assoc)
qed

lemma foldl_max_eq:
  "foldl (\<lambda>m c. if P c then max m (g c) else m) (a::int) cs
     = Max (insert a (g ` {c \<in> set cs. P c}))"
proof (induction cs arbitrary: a)
  case Nil
  then show ?case by simp
next
  case (Cons c cs)
  have fin: "finite (g ` {x \<in> set cs. P x})" by simp
  show ?case
  proof (cases "P c")
    case True
    then have eq: "{x \<in> set (c # cs). P x} = insert c {x \<in> set cs. P x}" by auto
    have "foldl (\<lambda>m c. if P c then max m (g c) else m) a (c # cs)
            = Max (insert (max a (g c)) (g ` {x \<in> set cs. P x}))"
      using Cons.IH[of "max a (g c)"] True by simp
    also have "\<dots> = Max (insert a (insert (g c) (g ` {x \<in> set cs. P x})))"
      by (rule Max_insert_max[OF fin])
    finally show ?thesis by (simp only: eq image_insert)
  next
    case False
    then have "{x \<in> set (c # cs). P x} = {x \<in> set cs. P x}" by auto
    then show ?thesis using Cons.IH[of a] False by simp
  qed
qed


lemma column_index_sets:
  assumes "0 \<le> c" "c < cols"
  shows "(\<lambda>r. images ! nat (r * cols + c)) ` {r \<in> set (py_range rows). r * cols + c < int (length images)}
       = set (column_images images rows cols c)"
    (is "?f ` ?A = ?T")
proof (intro set_eqI iffI)
  fix x assume "x \<in> ?f ` ?A"
  then obtain r where r: "0 \<le> r" "r < rows" "r * cols + c < int (length images)"
    and x: "x = images ! nat (r * cols + c)"
    by (auto simp: set_py_range)
  have nonneg: "0 \<le> r * cols + c" using r(1) assms by simp
  have "r * cols + c \<le> (rows - 1) * cols + c"
    using r(2) assms by (simp add: mult_right_mono)
  also have "\<dots> < rows * cols" using assms by (simp add: algebra_simps)
  finally have lt: "r * cols + c < rows * cols" .
  have md: "(r * cols + c) mod cols = c" using assms by simp
  have "nat (r * cols + c) \<in> {i. i < length images \<and> int i < rows * cols \<and> int i mod cols = c}"
    using nonneg lt md r(3) by simp
  then show "x \<in> ?T"
    unfolding x column_images_def by (simp only: set_map set_filter set_upt) force
next
  fix x assume "x \<in> ?T"
  then obtain i where i: "i < length images" "int i < rows * cols" "int i mod cols = c"
    and x: "x = images ! i"
    by (auto simp: column_images_def)
  define r where "r = int i div cols"
  have cols: "0 < cols" using assms by simp
  have r0: "0 \<le> r" unfolding r_def using cols by (simp add: pos_imp_zdiv_nonneg_iff)
  have eq: "r * cols + c = int i"
    unfolding r_def using i(3) div_mult_mod_eq[of "int i" cols] by simp
  have "r < rows"
  proof (rule ccontr)
    assume "\<not> r < rows"
    then have "rows * cols \<le> r * cols" using cols by (simp add: mult_right_mono)
    also have "\<dots> \<le> int i" using eq assms(1) by simp
    finally show False using i(2) by simp
  qed
  then have "r \<in> ?A" using r0 eq i(1) by (simp add: set_py_range)
  moreover have "?f r = x" using eq x by simp
  ultimately show "x \<in> ?f ` ?A" by blast
qed

lemma max_or_zero_insert:
  assumes "\<forall>x\<in>set xs. (0::int) \<le> x"
  shows "Max (insert 0 (set xs)) = max_or_zero xs"
proof (cases xs)
  case Nil
  then show ?thesis by (simp add: max_or_zero_def)
next
  case (Cons y ys)
  then have ne: "set xs \<noteq> {}" by simp
  have "0 \<le> Max (set xs)" using assms ne by (simp add: Max_ge_iff) (use Cons in auto)
  then show ?thesis using ne Cons by (simp add: max_or_zero_def)
qed

lemma col_width_eq:
  assumes "0 \<le> c" "c < cols" "\<forall>img\<in>set images. 0 \<le> width img"
  shows "col_width images rows cols c = cell_width images rows cols c"
proof -
  have "col_width images rows cols c
      = Max (insert 0 ((\<lambda>r. width (images ! nat (r * cols + c))) `
               {r \<in> set (py_range rows). r * cols + c < int (length images)}))"
    unfolding col_width_def Let_def by (rule foldl_max_eq)
  also have "(\<lambda>r. width (images ! nat (r * cols + c))) `
               {r \<in> set (py_range rows). r * cols + c < int (length images)}
           = width ` set (column_images images rows cols c)"
  proof -
    have "(\<lambda>r. width (images ! nat (r * cols + c))) ` A
            = width ` ((\<lambda>r. images ! nat (r * cols + c)) ` A)" for A
      by (simp add: image_image)
    then show ?thesis
      by (simp only: column_index_sets[OF assms(1,2)])
  qed
  also have "width ` set (column_images images rows cols c)
           = set (map width (column_images images rows cols c))" by simp
  also have "Max (insert 0 \<dots>) = max_or_zero (map width (column_images images rows cols c))"
  proof (rule max_or_zero_insert)
    have "set (column_images images rows cols c) \<subseteq> set images"
      by (auto simp: column_images_def)
    then show "\<forall>x\<in>set (map width (column_images images rows cols c)). 0 \<le> x"
      using assms(3) by auto
  qed
  finally show ?thesis by (simp only: cell_width_def)
qed

lemma row_index_sets:
  assumes "0 \<le> r" "r < rows"
  shows "(\<lambda>c. images ! nat (r * cols + c)) ` {c \<in> set (py_range cols). r * cols + c < int (length images)}
       = set (row_images images rows cols r)"
    (is "?f ` ?A = ?T")
proof (intro set_eqI iffI)
  fix x assume "x \<in> ?f ` ?A"
  then obtain c where c: "0 \<le> c" "c < cols" "r * cols + c < int (length images)"
    and x: "x = images ! nat (r * cols + c)"
    by (auto simp: set_py_range)
  have cols: "0 < cols" using c by simp
  have nonneg: "0 \<le> r * cols + c" using c(1) assms cols by simp
  have "r * cols + c \<le> (rows - 1) * cols + c"
    using assms cols by (simp add: mult_right_mono)
  also have "\<dots> < rows * cols" using c by (simp add: algebra_simps)
  finally have lt: "r * cols + c < rows * cols" .
  have dv: "(r * cols + c) div cols = r" using c cols by simp
  have "nat (r * cols + c) \<in> {i. i < length images \<and> int i < rows * cols \<and> int i div cols = r}"
    using nonneg lt dv c(3) by simp
  then show "x \<in> ?T"
    unfolding x row_images_def by (simp only: set_map set_filter set_upt) force
next
  fix x assume "x \<in> ?T"
  then obtain i where i: "i < length images" "int i < rows * cols" "int i div cols = r"
    and x: "x = images ! i"
    by (auto simp: row_images_def)
  define c where "c = int i mod cols"
  have cols: "0 < cols"
  proof (rule ccontr)
    assume "\<not> 0 < cols"
    then have "rows * cols \<le> 0" using assms by (simp add: mult_nonneg_nonpos)
    then show False using i(2) by simp
  qed
  have c0: "0 \<le> c" "c < cols" unfolding c_def using cols by simp_all
  have eq: "r * cols + c = int i"
    unfolding c_def using i(3) div_mult_mod_eq[of "int i" cols] by simp
  have "c \<in> ?A" using c0 eq i(1) by (simp add: set_py_range)
  moreover have "?f c = x" using eq x by simp
  ultimately show "x \<in> ?f ` ?A" by blast
qed

lemma row_height_eq:
  assumes "0 \<le> r" "r < rows" "\<forall>img\<in>set images. 0 \<le> height img"
  shows "row_height images cols r = cell_height images rows cols r"
proof -
  have "row_height images cols r
      = Max (insert 0 ((\<lambda>c. height (images ! nat (r * cols + c))) `
               {c \<in> set (py_range cols). r * cols + c < int (length images)}))"
    unfolding row_height_def Let_def by (rule foldl_max_eq)
  also have "(\<lambda>c. height (images ! nat (r * cols + c))) `
               {c \<in> set (py_range cols). r * cols + c < int (length images)}
           = height ` set (row_images images rows cols r)"
  proof -
    have "(\<lambda>c. height (images ! nat (r * cols + c))) ` A
            = height ` ((\<lambda>c. images ! nat (r * cols + c)) ` A)" for A
      by (simp add: image_image)
    then show ?thesis
      by (simp only: row_index_sets[OF assms(1,2)])
  qed
  also have "height ` set (row_images images rows cols r)
           = set (map height (row_images images rows cols r))" by simp
  also have "Max (insert 0 \<dots>) = max_or_zero (map height (row_images images rows cols r))"
  proof (rule max_or_zero_insert)
    have "set (row_images images rows cols r) \<subseteq> set images"
      by (auto simp: row_images_def)
    then show "\<forall>x\<in>set (map height (row_images images rows cols r)). 0 \<le> x"
      using assms(3) by auto
  qed
  finally show ?thesis by (simp only: cell_height_def)
qed

lemma total_width_eq:
  assumes "\<forall>img\<in>set images. 0 \<le> width img"
  shows "total_width images rows cols h_spacing margin
           = canvas_width images rows cols h_spacing margin"
proof -
  have "map (col_width images rows cols) (py_range cols)
          = map (cell_width images rows cols) (py_range cols)"
    by (rule map_cong[OF refl])
       (simp add: set_py_range col_width_eq[OF _ _ assms] cell_width_def)
  then have "sum_list (col_widths images rows cols)
               = (\<Sum>c\<leftarrow>py_range cols. cell_width images rows cols c)"
    by (simp only: col_widths_def)
  then show ?thesis
    by (simp add: total_width_def canvas_width_def)
qed

lemma total_height_eq:
  assumes "\<forall>img\<in>set images. 0 \<le> height img"
  shows "total_height images rows cols v_spacing margin
           = canvas_height images rows cols v_spacing margin"
proof -
  have "map (row_height images cols) (py_range rows)
          = map (cell_height images rows cols) (py_range rows)"
    by (rule map_cong[OF refl])
       (simp add: set_py_range row_height_eq[OF _ _ assms])
  then have "sum_list (row_heights images rows cols)
               = (\<Sum>r\<leftarrow>py_range rows. cell_height images rows cols r)"
    by (simp only: row_heights_def)
  then show ?thesis
    by (simp add: total_height_def canvas_height_def)
qed


lemma paste_image_size:
  "cwidth (paste_image cv img pos) = cwidth cv" "cheight (paste_image cv img pos) = cheight cv"
  by (simp_all add: paste_image_def)

lemma foldl_snd_invariant:
  assumes "\<And>a b c. P (snd (f (a, b) c)) = P b"
  shows "P (snd (foldl f (a, b) cs)) = P b"
proof (induction cs arbitrary: a b)
  case Nil
  then show ?case by simp
next
  case (Cons c cs)
  obtain a' b' where f: "f (a, b) c = (a', b')" by (cases "f (a, b) c")
  have "P b' = P b" using assms[of a b c] f by simp
  then show ?case using Cons.IH[of a' b'] f by simp
qed

lemma paste_row_size:
  "cwidth (paste_row images cols h_spacing margin align cws rh r y cv) = cwidth cv"
  "cheight (paste_row images cols h_spacing margin align cws rh r y cv) = cheight cv"
  unfolding paste_row_def
  by (rule foldl_snd_invariant, simp add: Let_def paste_image_size)+

lemma paste_all_size:
  "cwidth (paste_all images rows cols h_spacing v_spacing margin align cws rhs cv) = cwidth cv"
  "cheight (paste_all images rows cols h_spacing v_spacing margin align cws rhs cv) = cheight cv"
  unfolding paste_all_def
  by (rule foldl_snd_invariant, simp add: paste_row_size)+

lemma max_or_zero_nonneg:
  assumes "\<forall>x\<in>set xs. (0::int) \<le> x"
  shows "0 \<le> max_or_zero xs"
  using max_or_zero_insert[OF assms] Max_ge[of "insert 0 (set xs)" 0] by simp

lemma sum_list_nonneg_int:
  assumes "\<forall>x\<in>set xs. (0::int) \<le> f x"
  shows "0 \<le> sum_list (map f xs)"
  using assms by (induction xs) auto

lemma canvas_width_nonneg:
  assumes "1 \<le> cols" "0 \<le> h_spacing" "0 \<le> margin" "\<forall>img\<in>set images. 0 \<le> width img"
  shows "0 \<le> canvas_width images rows cols h_spacing margin"
proof -
  have "0 \<le> cell_width images rows cols c" for c
    unfolding cell_width_def
    by (rule max_or_zero_nonneg) (use assms(4) in \<open>auto simp: column_images_def\<close>)
  then have "0 \<le> (\<Sum>c\<leftarrow>py_range cols. cell_width images rows cols c)"
    by (intro sum_list_nonneg_int) simp
  moreover have "0 \<le> (cols - 1) * h_spacing" using assms by simp
  ultimately show ?thesis using assms(3) by (simp add: canvas_width_def)
qed

lemma canvas_height_nonneg:
  assumes "1 \<le> rows" "0 \<le> v_spacing" "0 \<le> margin" "\<forall>img\<in>set images. 0 \<le> height img"
  shows "0 \<le> canvas_height images rows cols v_spacing margin"
proof -
  have "0 \<le> cell_height images rows cols r" for r
    unfolding cell_height_def
    by (rule max_or_zero_nonneg) (use assms(4) in \<open>auto simp: row_images_def\<close>)
  then have "0 \<le> (\<Sum>r\<leftarrow>py_range rows. cell_height images rows cols r)"
    by (intro sum_list_nonneg_int) simp
  moreover have "0 \<le> (rows - 1) * v_spacing" using assms by simp
  ultimately show ?thesis using assms(3) by (simp add: canvas_height_def)
qed

lemma limit_canvas_small:
  assumes "tw \<le> 16384" "th \<le> 16384"
  shows "limit_canvas tw th = Inr (tw, th)"
  using assms by (simp add: limit_canvas_def max_canvas_size_def)

text \<open>
  Claim C1.  For rows and columns of at least 1, non-negative spacing and
  margin, and images of non-negative size, whenever the unscaled totals stay
  within 16384 px the canvas returned has the width
  \<open>margin * 2 + \<Sum> cell widths + (cols - 1) * h_spacing\<close> and the height
  \<open>margin * 2 + \<Sum> cell heights + (rows - 1) * v_spacing\<close>; and a canvas is
  returned as soon as the list is not empty and the background is a colour
  the library knows.
\<close>

theorem canvas_size_invariant:
  assumes "1 \<le> rows" and "1 \<le> cols"
    and "0 \<le> h_spacing" and "0 \<le> v_spacing" and "0 \<le> margin"
    and wf: "\<forall>img\<in>set images. 0 \<le> width img \<and> 0 \<le> height img"
    and "canvas_width images rows cols h_spacing margin \<le> 16384"
    and "canvas_height images rows cols v_spacing margin \<le> 16384"
  shows "(\<forall>cv. create_combined_image known images rows cols h_spacing v_spacing bg_color margin align
               = Some cv \<longrightarrow>
             cwidth cv = canvas_width images rows cols h_spacing margin \<and>
             cheight cv = canvas_height images rows cols v_spacing margin)
       \<and> (images \<noteq> [] \<and> (bg_color = ''transparent'' \<or> known bg_color) \<longrightarrow>
             create_combined_image known images rows cols h_spacing v_spacing bg_color margin align
               \<noteq> None)"
proof -
  have w: "\<forall>img\<in>set images. 0 \<le> width img" and h: "\<forall>img\<in>set images. 0 \<le> height img"
    using wf by simp_all
  have tw: "total_width images rows cols h_spacing margin
              = canvas_width images rows cols h_spacing margin"
    by (rule total_width_eq[OF w])
  have th: "total_height images rows cols v_spacing margin
              = canvas_height images rows cols v_spacing margin"
    by (rule total_height_eq[OF h])
  have lim: "limit_canvas (total_width images rows cols h_spacing margin)
                          (total_height images rows cols v_spacing margin)
             = Inr (canvas_width images rows cols h_spacing margin,
                    canvas_height images rows cols v_spacing margin)"
    unfolding tw th by (rule limit_canvas_small[OF assms(7,8)])
  have nn: "0 \<le> canvas_width images rows cols h_spacing margin"
           "0 \<le> canvas_height images rows cols v_spacing margin"
    using canvas_width_nonneg[OF assms(2,3,5) w] canvas_height_nonneg[OF assms(1,4,5) h]
    by simp_all
  show ?thesis
    using nn
    by (auto simp: create_combined_image_def lim and_then_def image_new_def Let_def
                   paste_all_size
             split: if_splits sum.splits)
qed

theorem canvas_size_invariant_witness:
  "\<exists>cv. create_combined_image (\<lambda>c. c = ''white'')
     [\<lparr>width = 400, height = 266, mode = ''RGB'', px = Source 0\<rparr>,
      \<lparr>width = 400, height = 300, mode = ''RGB'', px = Source 1\<rparr>,
      \<lparr>width = 400, height = 400, mode = ''RGB'', px = Source 2\<rparr>,
      \<lparr>width = 400, height = 171, mode = ''RGB'', px = Source 3\<rparr>]
     2 2 20 20 ''white'' 10 ''center'' = Some cv \<and> cwidth cv = 840 \<and> cheight cv = 740"
proof -
  let ?images = "[\<lparr>width = 400, height = 266, mode = ''RGB'', px = Source 0\<rparr>,
      \<lparr>width = 400, height = 300, mode = ''RGB'', px = Source 1\<rparr>,
      \<lparr>width = 400, height = 400, mode = ''RGB'', px = Source 2\<rparr>,
      \<lparr>width = 400, height = 171, mode = ''RGB'', px = Source 3\<rparr>]"
  have w: "canvas_width ?images 2 2 20 10 = 840" by code_simp
  have h: "canvas_height ?images 2 2 20 10 = 740" by code_simp
  have wf: "\<forall>img\<in>set ?images. 0 \<le> width img \<and> 0 \<le> height img" by simp
  show ?thesis
    using canvas_size_invariant
            [of 2 2 20 20 10 ?images "\<lambda>c. c = ''white''" "''white''" "''center''"]
    unfolding w h using wf by auto
qed

section \<open>More images than cells\<close>

lemma row_height_take:
  assumes "0 \<le> r" "r < rows" "rows * cols \<le> int (length images)"
  shows "row_height (take (nat (rows * cols)) images) cols r = row_height images cols r"
  unfolding row_height_def Let_def
proof (rule foldl_cong[OF refl refl])
  fix a c assume "c \<in> set (py_range cols)"
  then have c: "0 \<le> c" "c < cols" by (simp_all add: set_py_range)
  have "r * cols + c \<le> (rows - 1) * cols + c"
    using assms c by (simp add: mult_right_mono)
  also have "\<dots> < rows * cols" using c by (simp add: algebra_simps)
  finally have lt: "r * cols + c < rows * cols" .
  have nn: "0 \<le> r * cols + c" using assms c by simp
  show "(if r * cols + c < int (length (take (nat (rows * cols)) images))
         then max a (height (take (nat (rows * cols)) images ! nat (r * cols + c))) else a)
      = (if r * cols + c < int (length images)
         then max a (height (images ! nat (r * cols + c))) else a)"
    using lt nn assms(3) by simp
qed

lemma col_width_take:
  assumes "0 \<le> c" "c < cols" "rows * cols \<le> int (length images)"
  shows "col_width (take (nat (rows * cols)) images) rows cols c = col_width images rows cols c"
  unfolding col_width_def Let_def
proof (rule foldl_cong[OF refl refl])
  fix a r assume "r \<in> set (py_range rows)"
  then have r: "0 \<le> r" "r < rows" by (simp_all add: set_py_range)
  have "r * cols + c \<le> (rows - 1) * cols + c"
    using assms r by (simp add: mult_right_mono)
  also have "\<dots> < rows * cols" using assms by (simp add: algebra_simps)
  finally have lt: "r * cols + c < rows * cols" .
  have nn: "0 \<le> r * cols + c" using assms r by simp
  show "(if r * cols + c < int (length (take (nat (rows * cols)) images))
         then max a (width (take (nat (rows * cols)) images ! nat (r * cols + c))) else a)
      = (if r * cols + c < int (length images)
         then max a (width (images ! nat (r * cols + c))) else a)"
    using lt nn assms(3) by simp
qed

lemma row_heights_take:
  assumes "rows * cols \<le> int (length images)"
  shows "row_heights (take (nat (rows * cols)) images) rows cols = row_heights images rows cols"
  unfolding row_heights_def
  by (rule map_cong[OF refl]) (simp add: set_py_range row_height_take[OF _ _ assms])

lemma col_widths_take:
  assumes "rows * cols \<le> int (length images)"
  shows "col_widths (take (nat (rows * cols)) images) rows cols = col_widths images rows cols"
  unfolding col_widths_def
  by (rule map_cong[OF refl]) (simp add: set_py_range col_width_take[OF _ _ assms])

lemma paste_row_take:
  assumes "0 \<le> r" "r < rows" "rows * cols \<le> int (length images)"
  shows "paste_row (take (nat (rows * cols)) images) cols h_spacing margin align cws rh r y cv
       = paste_row images cols h_spacing margin align cws rh r y cv"
  unfolding paste_row_def Let_def
proof (rule arg_cong[where f = snd], rule foldl_cong[OF refl refl])
  fix a c assume "c \<in> set (py_range cols)"
  then have c: "0 \<le> c" "c < cols" by (simp_all add: set_py_range)
  have "r * cols + c \<le> (rows - 1) * cols + c"
    using assms c by (simp add: mult_right_mono)
  also have "\<dots> < rows * cols" using c by (simp add: algebra_simps)
  finally have lt: "r * cols + c < rows * cols" .
  have nn: "0 \<le> r * cols + c" using assms c by simp
  show "(case a of (x_offset, cv) \<Rightarrow> \<lambda>c.
           (x_offset + cws ! nat c + h_spacing,
            if r * cols + c < int (length (take (nat (rows * cols)) images))
            then paste_image cv (take (nat (rows * cols)) images ! nat (r * cols + c))
                   (place align x_offset y (cws ! nat c) rh
                      (take (nat (rows * cols)) images ! nat (r * cols + c)))
            else cv)) c
      = (case a of (x_offset, cv) \<Rightarrow> \<lambda>c.
           (x_offset + cws ! nat c + h_spacing,
            if r * cols + c < int (length images)
            then paste_image cv (images ! nat (r * cols + c))
                   (place align x_offset y (cws ! nat c) rh (images ! nat (r * cols + c)))
            else cv)) c"
    using lt nn assms(3) by (simp split: prod.splits)
qed

lemma paste_all_take:
  assumes "rows * cols \<le> int (length images)"
  shows "paste_all (take (nat (rows * cols)) images) rows cols h_spacing v_spacing margin align
           cws rhs cv
       = paste_all images rows cols h_spacing v_spacing margin align cws rhs cv"
  unfolding paste_all_def
proof (rule arg_cong[where f = snd], rule foldl_cong[OF refl refl])
  fix a r assume "r \<in> set (py_range rows)"
  then have r: "0 \<le> r" "r < rows" by (simp_all add: set_py_range)
  show "(case a of (y_offset, cv) \<Rightarrow> \<lambda>r.
           (y_offset + rhs ! nat r + v_spacing,
            paste_row (take (nat (rows * cols)) images) cols h_spacing margin align cws
              (rhs ! nat r) r y_offset cv)) r
      = (case a of (y_offset, cv) \<Rightarrow> \<lambda>r.
           (y_offset + rhs ! nat r + v_spacing,
            paste_row images cols h_spacing margin align cws (rhs ! nat r) r y_offset cv)) r"
    by (simp add: paste_row_take[OF r assms] split: prod.splits)
qed

lemma create_combined_image_take:
  assumes "1 \<le> rows" "1 \<le> cols" "rows * cols \<le> int (length images)"
  shows "create_combined_image known (take (nat (rows * cols)) images) rows cols h_spacing
           v_spacing bg_color margin align
       = create_combined_image known images rows cols h_spacing v_spacing bg_color margin align"
proof -
  have "0 < rows * cols" using assms by simp
  then have ne: "take (nat (rows * cols)) images \<noteq> []" "images \<noteq> []"
    using assms(3) by auto
  show ?thesis
    unfolding create_combined_image_def total_width_def total_height_def
    by (simp only: ne if_False row_heights_take[OF assms(3)] col_widths_take[OF assms(3)]
                   paste_all_take[OF assms(3)])
qed


lemma foldl_offsets:
  fixes n :: nat and x0 :: int
  assumes "\<And>x cv c. c < n \<Longrightarrow> f (x, cv) (int c) = (x + d c, cv\<lparr>pastes := pastes cv @ e x c\<rparr>)"
  shows "foldl f (x0, cv0) (map int [0..<n])
       = (x0 + (\<Sum>j\<leftarrow>[0..<n]. d j),
          cv0\<lparr>pastes := pastes cv0 @
                 concat (map (\<lambda>c. e (x0 + (\<Sum>j\<leftarrow>[0..<c]. d j)) c) [0..<n])\<rparr>)"
  using assms
proof (induction n)
  case 0
  then show ?case by simp
next
  case (Suc n)
  have IH: "foldl f (x0, cv0) (map int [0..<n])
       = (x0 + (\<Sum>j\<leftarrow>[0..<n]. d j),
          cv0\<lparr>pastes := pastes cv0 @
                 concat (map (\<lambda>c. e (x0 + (\<Sum>j\<leftarrow>[0..<c]. d j)) c) [0..<n])\<rparr>)"
    by (rule Suc.IH) (simp add: Suc.prems)
  have "foldl f (x0, cv0) (map int [0..<Suc n])
          = f (foldl f (x0, cv0) (map int [0..<n])) (int n)"
    by simp
  also have "\<dots> = f (x0 + (\<Sum>j\<leftarrow>[0..<n]. d j),
          cv0\<lparr>pastes := pastes cv0 @
                 concat (map (\<lambda>c. e (x0 + (\<Sum>j\<leftarrow>[0..<c]. d j)) c) [0..<n])\<rparr>) (int n)"
    by (simp only: IH)
  also have "\<dots> = (x0 + (\<Sum>j\<leftarrow>[0..<n]. d j) + d n,
          cv0\<lparr>pastes := (pastes cv0 @
                 concat (map (\<lambda>c. e (x0 + (\<Sum>j\<leftarrow>[0..<c]. d j)) c) [0..<n]))
                 @ e (x0 + (\<Sum>j\<leftarrow>[0..<n]. d j)) n\<rparr>)"
    by (subst Suc.prems) simp_all
  finally show ?case by simp
qed


lemma map_shift_upt: "map g [k..<k + m] = map (\<lambda>c. g (k + c)) [0..<(m::nat)]"
proof -
  have "[k..<k + m] = map (\<lambda>c. k + c) [0..<m]"
    by (induction m) simp_all
  then show ?thesis by (simp add: comp_def)
qed

lemma concat_grid:
  "concat (map (\<lambda>r. map (\<lambda>c. g (r * m + c)) [0..<m]) [0..<n]) = map g [0..<n * (m::nat)]"
proof (induction n)
  case 0
  then show ?case by simp
next
  case (Suc n)
  have "[0..<Suc n * m] = [0..<n * m] @ [n * m..<n * m + m]"
    using upt_add_eq_append[of 0 "n * m" m] by (simp add: add.commute)
  then have "map g [0..<Suc n * m] = map g [0..<n * m] @ map (\<lambda>c. g (n * m + c)) [0..<m]"
    by (simp only: map_append map_shift_upt)
  then show ?case using Suc by simp
qed

lemma paste_row_full:
  assumes "0 \<le> cols" "\<forall>c<nat cols. int r * cols + int c < int (length images)"
  shows "paste_row images cols h_spacing margin align cws rh (int r) y_offset combined
       = combined\<lparr>pastes := pastes combined @
           map (\<lambda>c. let img = images ! (r * nat cols + c);
                         pos = place align (margin + (\<Sum>j\<leftarrow>[0..<c]. cws ! j + h_spacing))
                                 y_offset (cws ! c) rh img
                     in (img, fst pos, snd pos, mode img = ''RGBA''))
             [0..<nat cols]\<rparr>"
proof -
  have idx: "nat (int r * cols + int c) = r * nat cols + c" for c
    using assms(1) by (simp add: nat_add_distrib nat_mult_distrib)
  have "foldl (\<lambda>(x_offset, cv) c.
                   let idx = int r * cols + c
                   in (x_offset + cws ! nat c + h_spacing,
                       if idx < int (length images)
                       then paste_image cv (images ! nat idx)
                              (place align x_offset y_offset (cws ! nat c) rh (images ! nat idx))
                       else cv))
                (margin, combined) (map int [0..<nat cols])
       = (margin + (\<Sum>j\<leftarrow>[0..<nat cols]. cws ! j + h_spacing),
          combined\<lparr>pastes := pastes combined @
             concat (map (\<lambda>c. [let img = images ! (r * nat cols + c);
                           pos = place align (margin + (\<Sum>j\<leftarrow>[0..<c]. cws ! j + h_spacing))
                                   y_offset (cws ! c) rh img
                       in (img, fst pos, snd pos, mode img = ''RGBA'')])
                 [0..<nat cols])\<rparr>)"
    by (rule foldl_offsets) (simp add: assms(2) Let_def paste_image_def idx)
  then show ?thesis
    by (simp add: paste_row_def py_range_def)
qed


lemma paste_all_full:
  assumes "0 \<le> rows" "0 \<le> cols" "rows * cols \<le> int (length images)"
  shows "paste_all images rows cols h_spacing v_spacing margin align cws rhs combined
       = combined\<lparr>pastes := pastes combined @
           map (grid_entry images (nat cols) h_spacing v_spacing margin align cws rhs)
             [0..<nat rows * nat cols]\<rparr>"
proof -
  let ?m = "nat cols"
  let ?row = "\<lambda>y r. map (\<lambda>c. let img = images ! (r * ?m + c);
                         pos = place align (margin + (\<Sum>j\<leftarrow>[0..<c]. cws ! j + h_spacing))
                                 y (cws ! c) (rhs ! r) img
                     in (img, fst pos, snd pos, mode img = ''RGBA'')) [0..<?m]"
  have occupied: "\<forall>c<?m. int r * cols + int c < int (length images)" if "r < nat rows" for r
  proof (intro allI impI)
    fix c assume c: "c < ?m"
    have "int r + 1 \<le> rows" using that by simp
    then have "(int r + 1) * cols \<le> rows * cols"
      using assms(2) by (rule mult_right_mono)
    moreover have "int r * cols + int c < (int r + 1) * cols"
      using c by (simp add: algebra_simps)
    ultimately show "int r * cols + int c < int (length images)"
      using assms(3) by simp
  qed
  have "foldl (\<lambda>(y_offset, cv) r.
                   (y_offset + rhs ! nat r + v_spacing,
                    paste_row images cols h_spacing margin align cws (rhs ! nat r) r y_offset cv))
                (margin, combined) (map int [0..<nat rows])
      = (margin + (\<Sum>j\<leftarrow>[0..<nat rows]. rhs ! j + v_spacing),
         combined\<lparr>pastes := pastes combined @
            concat (map (\<lambda>r. ?row (margin + (\<Sum>j\<leftarrow>[0..<r]. rhs ! j + v_spacing)) r)
                      [0..<nat rows])\<rparr>)"
    by (rule foldl_offsets) (simp add: paste_row_full[OF assms(2) occupied])
  moreover have "?row (margin + (\<Sum>j\<leftarrow>[0..<r]. rhs ! j + v_spacing)) r
        = map (\<lambda>c. grid_entry images ?m h_spacing v_spacing margin align cws rhs (r * ?m + c))
            [0..<?m]" for r
    by (rule map_cong[OF refl]) (simp add: grid_entry_def Let_def)
  ultimately show ?thesis
    by (simp add: paste_all_def py_range_def concat_grid)
qed


lemma create_combined_image_pastes:
  assumes "0 \<le> rows" "0 \<le> cols" "rows * cols \<le> int (length images)"
    and "create_combined_image known images rows cols h_spacing v_spacing bg_color margin align
           = Some cv"
  shows "pastes cv = map (cell_paste images rows cols h_spacing v_spacing margin align)
                       [0..<nat (rows * cols)]"
proof -
  have n: "nat rows * nat cols = nat (rows * cols)"
    using assms(1,2) by (simp add: nat_mult_distrib)
  from assms(4) obtain dims c0 where c0: "image_new known dims bg_color = Inr c0"
    and cv: "cv = paste_all images rows cols h_spacing v_spacing margin align
                    (col_widths images rows cols) (row_heights images rows cols) c0"
    by (auto simp: create_combined_image_def and_then_def Let_def split: if_splits sum.splits)
  have "pastes c0 = []"
    using c0 by (auto simp: image_new_def split: if_splits)
  then show ?thesis
    unfolding cv paste_all_full[OF assms(1-3)] by (simp add: cell_paste_def n)
qed

text \<open>
  Claim C7.  With at least one row and one column and more images than
  \<open>rows * cols\<close> cells, the call gives what it gives on the first
  \<open>rows * cols\<close> images alone: the same canvas, or the same failure.  The row
  heights and column widths are those of the truncated list, and the canvas
  holds exactly one paste per index below \<open>rows * cols\<close>, in order, image
  \<open>i\<close> in row \<open>i div cols\<close> and column \<open>i mod cols\<close>.
\<close>

theorem excess_images_dropped:
  assumes "1 \<le> rows" and "1 \<le> cols" and "rows * cols < int (length images)"
  shows "create_combined_image known images rows cols h_spacing v_spacing bg_color margin align
           = create_combined_image known (take (nat (rows * cols)) images) rows cols h_spacing
               v_spacing bg_color margin align
       \<and> row_heights images rows cols = row_heights (take (nat (rows * cols)) images) rows cols
       \<and> col_widths images rows cols = col_widths (take (nat (rows * cols)) images) rows cols
       \<and> (\<forall>cv. create_combined_image known images rows cols h_spacing v_spacing bg_color margin
                  align = Some cv \<longrightarrow>
               pastes cv = map (cell_paste images rows cols h_spacing v_spacing margin align)
                             [0..<nat (rows * cols)])"
proof -
  have le: "rows * cols \<le> int (length images)" using assms(3) by simp
  have nn: "0 \<le> rows" "0 \<le> cols" using assms(1,2) by simp_all
  show ?thesis
    using create_combined_image_take[OF assms(1,2) le] row_heights_take[OF le]
      col_widths_take[OF le] create_combined_image_pastes[OF nn le]
    by simp
qed

theorem excess_images_dropped_witness:
  "create_combined_image (\<lambda>c. c = ''white'') [\<lparr>width = 300, height = 200, mode = ''RGB'', px = Source 0\<rparr>,
      \<lparr>width = 100, height = 100, mode = ''RGBA'', px = Source 1\<rparr>,
      \<lparr>width = 50, height = 50, mode = ''RGB'', px = Source 2\<rparr>] 1 2 20 20 ''white'' 10 ''center''
     = create_combined_image (\<lambda>c. c = ''white'') [\<lparr>width = 300, height = 200, mode = ''RGB'', px = Source 0\<rparr>,
      \<lparr>width = 100, height = 100, mode = ''RGBA'', px = Source 1\<rparr>] 1 2 20 20 ''white'' 10 ''center''
   \<and> (\<exists>cv. create_combined_image (\<lambda>c. c = ''white'') [\<lparr>width = 300, height = 200, mode = ''RGB'', px = Source 0\<rparr>,
      \<lparr>width = 100, height = 100, mode = ''RGBA'', px = Source 1\<rparr>,
      \<lparr>width = 50, height = 50, mode = ''RGB'', px = Source 2\<rparr>] 1 2 20 20 ''white'' 10 ''center'' = Some cv
          \<and> pastes cv = [(\<lparr>width = 300, height = 200, mode = ''RGB'', px = Source 0\<rparr>, 10, 10, False), (\<lparr>width = 100, height = 100, mode = ''RGBA'', px = Source 1\<rparr>, 330, 60, True)])"
proof -
  have made: "create_combined_image (\<lambda>c. c = ''white'') [\<lparr>width = 300, height = 200, mode = ''RGB'', px = Source 0\<rparr>,
      \<lparr>width = 100, height = 100, mode = ''RGBA'', px = Source 1\<rparr>,
      \<lparr>width = 50, height = 50, mode = ''RGB'', px = Source 2\<rparr>] 1 2 20 20 ''white'' 10 ''center''
      = Some \<lparr>cwidth = 440, cheight = 220, cmode = ''RGB'', fill = ''white'',
              pastes = [(\<lparr>width = 300, height = 200, mode = ''RGB'', px = Source 0\<rparr>, 10, 10, False), (\<lparr>width = 100, height = 100, mode = ''RGBA'', px = Source 1\<rparr>, 330, 60, True)], labels = []\<rparr>"
    by code_simp
  have cells: "map (cell_paste [\<lparr>width = 300, height = 200, mode = ''RGB'', px = Source 0\<rparr>,
      \<lparr>width = 100, height = 100, mode = ''RGBA'', px = Source 1\<rparr>,
      \<lparr>width = 50, height = 50, mode = ''RGB'', px = Source 2\<rparr>] 1 2 20 20 10 ''center'') [0..<nat (1 * 2)]
      = [(\<lparr>width = 300, height = 200, mode = ''RGB'', px = Source 0\<rparr>, 10, 10, False), (\<lparr>width = 100, height = 100, mode = ''RGBA'', px = Source 1\<rparr>, 330, 60, True)]"
    by code_simp
  have first: "take (nat (1 * 2)) [\<lparr>width = 300, height = 200, mode = ''RGB'', px = Source 0\<rparr>,
      \<lparr>width = 100, height = 100, mode = ''RGBA'', px = Source 1\<rparr>,
      \<lparr>width = 50, height = 50, mode = ''RGB'', px = Source 2\<rparr>] = [\<lparr>width = 300, height = 200, mode = ''RGB'', px = Source 0\<rparr>,
      \<lparr>width = 100, height = 100, mode = ''RGBA'', px = Source 1\<rparr>]"
    by simp
  have more: "(1::int) * 2 < int (length [\<lparr>width = 300, height = 200, mode = ''RGB'', px = Source 0\<rparr>,
      \<lparr>width = 100, height = 100, mode = ''RGBA'', px = Source 1\<rparr>,
      \<lparr>width = 50, height = 50, mode = ''RGB'', px = Source 2\<rparr>])"
    by simp
  have cols2: "(1::int) \<le> 2"
    by simp
  note dropped = excess_images_dropped
            [OF order_refl cols2 more, of "(\<lambda>c. c = ''white'')" 20 20 "''white''" 10 "''center''"]
  have same: "create_combined_image (\<lambda>c. c = ''white'') [\<lparr>width = 300, height = 200, mode = ''RGB'', px = Source 0\<rparr>,
      \<lparr>width = 100, height = 100, mode = ''RGBA'', px = Source 1\<rparr>,
      \<lparr>width = 50, height = 50, mode = ''RGB'', px = Source 2\<rparr>] 1 2 20 20 ''white'' 10 ''center''
     = create_combined_image (\<lambda>c. c = ''white'') [\<lparr>width = 300, height = 200, mode = ''RGB'', px = Source 0\<rparr>,
      \<lparr>width = 100, height = 100, mode = ''RGBA'', px = Source 1\<rparr>] 1 2 20 20 ''white'' 10 ''center''"
    using dropped[THEN conjunct1] unfolding first .
  have "\<forall>cv. create_combined_image (\<lambda>c. c = ''white'') [\<lparr>width = 300, height = 200, mode = ''RGB'', px = Source 0\<rparr>,
      \<lparr>width = 100, height = 100, mode = ''RGBA'', px = Source 1\<rparr>,
      \<lparr>width = 50, height = 50, mode = ''RGB'', px = Source 2\<rparr>] 1 2 20 20 ''white'' 10 ''center'' = Some cv
          \<longrightarrow> pastes cv = map (cell_paste [\<lparr>width = 300, height = 200, mode = ''RGB'', px = Source 0\<rparr>,
      \<lparr>width = 100, height = 100, mode = ''RGBA'', px = Source 1\<rparr>,
      \<lparr>width = 50, height = 50, mode = ''RGB'', px = Source 2\<rparr>] 1 2 20 20 10 ''center'') [0..<nat (1 * 2)]"
    using dropped[THEN conjunct2, THEN conjunct2, THEN conjunct2] .
  then have "\<exists>cv. create_combined_image (\<lambda>c. c = ''white'') [\<lparr>width = 300, height = 200, mode = ''RGB'', px = Source 0\<rparr>,
      \<lparr>width = 100, height = 100, mode = ''RGBA'', px = Source 1\<rparr>,
      \<lparr>width = 50, height = 50, mode = ''RGB'', px = Source 2\<rparr>] 1 2 20 20 ''white'' 10 ''center'' = Some cv
          \<and> pastes cv = [(\<lparr>width = 300, height = 200, mode = ''RGB'', px = Source 0\<rparr>, 10, 10, False), (\<lparr>width = 100, height = 100, mode = ''RGBA'', px = Source 1\<rparr>, 330, 60, True)]"
    unfolding cells using made by blast
  with same show ?thesis by (rule conjI)
qed

section \<open>Label text\<close>

lemma py_chr_letter:
  assumes "97 + i < 1114112"
  shows "py_chr (97 + int i) = Inr (97 + i)"
  using assms by (simp add: py_chr_def)

lemma label_text_string:
  assumes "97 + i < 1114112"
  shows "label_text label_format (int i) = Inr (label_string label_format i)"
  by (simp add: label_text_def label_string_def py_chr_letter[OF assms] and_then_def)

lemma foldl_label_offsets:
  fixes n :: nat and x0 :: int
  assumes "\<And>x cv c. c < n \<Longrightarrow>
             f (Inr (x, cv)) (int c) = Inr (x + d c, cv\<lparr>labels := labels cv @ e x c\<rparr>)"
  shows "foldl f (Inr (x0, cv0)) (map int [0..<n])
       = Inr (x0 + (\<Sum>j\<leftarrow>[0..<n]. d j),
              cv0\<lparr>labels := labels cv0 @
                 concat (map (\<lambda>c. e (x0 + (\<Sum>j\<leftarrow>[0..<c]. d j)) c) [0..<n])\<rparr>)"
  using assms
proof (induction n)
  case 0
  then show ?case by simp
next
  case (Suc n)
  have IH: "foldl f (Inr (x0, cv0)) (map int [0..<n])
       = Inr (x0 + (\<Sum>j\<leftarrow>[0..<n]. d j),
              cv0\<lparr>labels := labels cv0 @
                 concat (map (\<lambda>c. e (x0 + (\<Sum>j\<leftarrow>[0..<c]. d j)) c) [0..<n])\<rparr>)"
    by (rule Suc.IH) (simp add: Suc.prems)
  have "foldl f (Inr (x0, cv0)) (map int [0..<Suc n])
          = f (foldl f (Inr (x0, cv0)) (map int [0..<n])) (int n)"
    by simp
  also have "\<dots> = f (Inr (x0 + (\<Sum>j\<leftarrow>[0..<n]. d j),
          cv0\<lparr>labels := labels cv0 @
                 concat (map (\<lambda>c. e (x0 + (\<Sum>j\<leftarrow>[0..<c]. d j)) c) [0..<n])\<rparr>)) (int n)"
    by (simp only: IH)
  also have "\<dots> = Inr (x0 + (\<Sum>j\<leftarrow>[0..<n]. d j) + d n,
          cv0\<lparr>labels := (labels cv0 @
                 concat (map (\<lambda>c. e (x0 + (\<Sum>j\<leftarrow>[0..<c]. d j)) c) [0..<n]))
                 @ e (x0 + (\<Sum>j\<leftarrow>[0..<n]. d j)) n\<rparr>)"
    by (subst Suc.prems) simp_all
  finally show ?case by simp
qed

lemma concat_occupied:
  "concat (map (\<lambda>k. if k < len then [g k] else []) [0..<N]) = map g [0..<min len N]"
proof (induction N)
  case 0
  then show ?case by simp
next
  case (Suc N)
  show ?case
  proof (cases "N < len")
    case True
    then have "min len (Suc N) = Suc (min len N)" "min len N = N" by simp_all
    then show ?thesis using Suc True by simp
  next
    case False
    then have "min len (Suc N) = min len N" by simp
    then show ?thesis using Suc False by simp
  qed
qed

lemma label_row_full:
  assumes "0 \<le> cols" "known label_color" "97 + length images \<le> 1114112"
  shows "label_row known bbox images cols label_format label_position label_color label_margin
           h_spacing margin align cws rh (int r) y_offset combined
       = Inr (combined\<lparr>labels := labels combined @
           concat (map (\<lambda>c. if r * nat cols + c < length images
                       then [(let img = images ! (r * nat cols + c);
                            text = label_string label_format (r * nat cols + c);
                            img_pos = place align (margin + (\<Sum>j\<leftarrow>[0..<c]. cws ! j + h_spacing))
                                 y_offset (cws ! c) rh img;
                            pos = text_position label_position (bbox text) label_margin img_pos img
                        in (text, fst pos, snd pos, label_color))]
                       else [])
             [0..<nat cols])\<rparr>)"
proof -
  have idx: "nat (int r * cols + int c) = r * nat cols + c" for c
    using assms(1) by (simp add: nat_add_distrib nat_mult_distrib)
  have idx': "int r * cols + int c = int (r * nat cols + c)" for c
    using assms(1) by simp
  have ltxt: "label_text label_format (int (r * nat cols + c))
               = Inr (label_string label_format (r * nat cols + c))"
    if "r * nat cols + c < length images" for c
    by (rule label_text_string) (use that assms(3) in simp)
  have "foldl (\<lambda>state c.
                    case state of
                      Inl stopped \<Rightarrow> Inl stopped
                    | Inr (x_offset, cv) \<Rightarrow>
                        let idx = int r * cols + c
                        in if idx < int (length images)
                           then case label_cell known bbox images label_format label_position
                                       label_color label_margin align (cws ! nat c) rh idx
                                       x_offset y_offset cv of
                                  Inl e \<Rightarrow> Inl (e, cv)
                                | Inr cv' \<Rightarrow> Inr (x_offset + cws ! nat c + h_spacing, cv')
                           else Inr (x_offset + cws ! nat c + h_spacing, cv))
                 (Inr (margin, combined)) (map int [0..<nat cols])
       = Inr (margin + (\<Sum>j\<leftarrow>[0..<nat cols]. cws ! j + h_spacing),
          combined\<lparr>labels := labels combined @
           concat (map (\<lambda>c. if r * nat cols + c < length images
                       then [(let img = images ! (r * nat cols + c);
                            text = label_string label_format (r * nat cols + c);
                            img_pos = place align (margin + (\<Sum>j\<leftarrow>[0..<c]. cws ! j + h_spacing))
                                 y_offset (cws ! c) rh img;
                            pos = text_position label_position (bbox text) label_margin img_pos img
                        in (text, fst pos, snd pos, label_color))]
                       else [])
             [0..<nat cols])\<rparr>)"
    by (rule foldl_label_offsets)
       (simp add: idx' ltxt Let_def label_cell_def draw_text_def and_then_def assms(2)
             del: of_nat_add of_nat_mult)
  then show ?thesis
    by (simp add: label_row_def py_range_def)
qed


lemma concat_rows: "concat (map (\<lambda>r. concat (F r)) rs) = concat (concat (map F rs))"
  by (induction rs) simp_all

lemma label_all_full:
  assumes "0 \<le> rows" "0 \<le> cols" "known label_color" "97 + length images \<le> 1114112"
  shows "label_all known bbox images rows cols label_format label_position label_color
           label_margin h_spacing v_spacing margin align cws rhs combined
       = Inr (combined\<lparr>labels := labels combined @
           map (label_entry bbox images (nat cols) label_format label_position label_color
                  label_margin h_spacing v_spacing margin align cws rhs)
             [0..<min (length images) (nat rows * nat cols)]\<rparr>)"
proof -
  let ?m = "nat cols"
  let ?g = "\<lambda>k. if k < length images
                then [label_entry bbox images ?m label_format label_position label_color
                        label_margin h_spacing v_spacing margin align cws rhs k]
                else []"
  let ?row = "\<lambda>y r. concat (map (\<lambda>c. if r * ?m + c < length images
                       then [(let img = images ! (r * ?m + c);
                            text = label_string label_format (r * ?m + c);
                            img_pos = place align (margin + (\<Sum>j\<leftarrow>[0..<c]. cws ! j + h_spacing))
                                 y (cws ! c) (rhs ! r) img;
                            pos = text_position label_position (bbox text) label_margin img_pos img
                        in (text, fst pos, snd pos, label_color))]
                       else [])
             [0..<?m])"
  have "foldl (\<lambda>state r.
                    case state of
                      Inl stopped \<Rightarrow> Inl stopped
                    | Inr (y_offset, cv) \<Rightarrow>
                        case label_row known bbox images cols label_format label_position
                               label_color label_margin h_spacing margin align cws
                               (rhs ! nat r) r y_offset cv of
                          Inl stopped \<Rightarrow> Inl stopped
                        | Inr cv' \<Rightarrow> Inr (y_offset + rhs ! nat r + v_spacing, cv'))
                 (Inr (margin, combined)) (map int [0..<nat rows])
      = Inr (margin + (\<Sum>j\<leftarrow>[0..<nat rows]. rhs ! j + v_spacing),
         combined\<lparr>labels := labels combined @
            concat (map (\<lambda>r. ?row (margin + (\<Sum>j\<leftarrow>[0..<r]. rhs ! j + v_spacing)) r)
                      [0..<nat rows])\<rparr>)"
    by (rule foldl_label_offsets) (simp add: label_row_full[where known = known and label_color = label_color, OF assms(2-4)])
  moreover have "?row (margin + (\<Sum>j\<leftarrow>[0..<r]. rhs ! j + v_spacing)) r
        = concat (map (\<lambda>c. ?g (r * ?m + c)) [0..<?m])" for r
    by (rule arg_cong[where f = concat], rule map_cong[OF refl])
       (simp add: label_entry_def Let_def)
  moreover have "concat (map (\<lambda>r. concat (map (\<lambda>c. ?g (r * ?m + c)) [0..<?m])) [0..<nat rows])
        = concat (concat (map (\<lambda>r. map (\<lambda>c. ?g (r * ?m + c)) [0..<?m]) [0..<nat rows]))"
    by (rule concat_rows)
  moreover have "concat (map (\<lambda>r. map (\<lambda>c. ?g (r * ?m + c)) [0..<?m]) [0..<nat rows])
        = map ?g [0..<nat rows * ?m]"
    by (rule concat_grid[of ?g ?m "nat rows"])
  moreover have "concat (map ?g [0..<nat rows * ?m])
        = map (label_entry bbox images ?m label_format label_position label_color
                 label_margin h_spacing v_spacing margin align cws rhs)
            [0..<min (length images) (nat rows * ?m)]"
    by (rule concat_occupied)
  ultimately show ?thesis
    by (simp add: label_all_def py_range_def)
qed

lemma lowercase_letters:
  "map of_char ''abcdefghijklmnopqrstuvwxyz'' = map (\<lambda>i. 97 + i) [0..<26::nat]"
  by (simp add: upt_rec)

text \<open>
  Claim C2, as the code has it.  When the label colour is known and the
  code point \<open>97 + i\<close> exists for every image, \<^verbatim>\<open>add_labels\<close> draws one label
  per occupied cell, in the order of the linear index \<open>i\<close>; its text under
  \<^verbatim>\<open>'(a)'\<close> is \<^verbatim>\<open>"("\<close>, the character of code point \<open>97 + i\<close>, \<^verbatim>\<open>")"\<close>, and
  under \<^verbatim>\<open>'a/'\<close> and \<^verbatim>\<open>'Fig1a'\<close> that character before \<^verbatim>\<open>"/"\<close> and after
  \<^verbatim>\<open>"Fig1"\<close>.  For \<open>i < 26\<close> the character is the lowercase letter of rank
  \<open>i\<close>.  Nothing reduces the index modulo 26.
\<close>

theorem labels_follow_index:
  assumes "0 \<le> rows" and "0 \<le> cols" and "known label_color"
    and "97 + length images \<le> 1114112"
  shows "add_labels known bbox images (Some cv) rows cols label_format label_position
           label_color label_margin h_spacing v_spacing margin align
       = Some (cv\<lparr>cmode := ''RGBA'',
                  labels := labels cv @
                    map (label_entry bbox images (nat cols) label_format label_position
                           label_color label_margin h_spacing v_spacing margin align
                           (col_widths images rows cols) (row_heights images rows cols))
                      [0..<min (length images) (nat rows * nat cols)]\<rparr>)
       \<and> (\<forall>i<26. label_string ''(a)'' i
                   = ord_str ''('' @ ord_str [''abcdefghijklmnopqrstuvwxyz'' ! i] @ ord_str '')''
                 \<and> label_string ''a/'' i
                   = ord_str [''abcdefghijklmnopqrstuvwxyz'' ! i] @ ord_str ''/''
                 \<and> label_string ''Fig1a'' i
                   = ord_str ''Fig1'' @ ord_str [''abcdefghijklmnopqrstuvwxyz'' ! i])"
proof
  show "add_labels known bbox images (Some cv) rows cols label_format label_position
           label_color label_margin h_spacing v_spacing margin align
       = Some (cv\<lparr>cmode := ''RGBA'',
                  labels := labels cv @
                    map (label_entry bbox images (nat cols) label_format label_position
                           label_color label_margin h_spacing v_spacing margin align
                           (col_widths images rows cols) (row_heights images rows cols))
                      [0..<min (length images) (nat rows * nat cols)]\<rparr>)"
    by (simp add: add_labels_def Let_def label_all_full[where known = known and label_color = label_color, OF assms])
next
  have letter: "of_char (''abcdefghijklmnopqrstuvwxyz'' ! i) = 97 + i" if "i < 26" for i :: nat
  proof -
    have "of_char (''abcdefghijklmnopqrstuvwxyz'' ! i)
            = map of_char ''abcdefghijklmnopqrstuvwxyz'' ! i"
      using that by (simp del: list.map)
    also have "\<dots> = 97 + i"
      unfolding lowercase_letters using that by (simp del: upt_Suc)
    finally show ?thesis .
  qed
  show "\<forall>i<26. label_string ''(a)'' i
                   = ord_str ''('' @ ord_str [''abcdefghijklmnopqrstuvwxyz'' ! i] @ ord_str '')''
                 \<and> label_string ''a/'' i
                   = ord_str [''abcdefghijklmnopqrstuvwxyz'' ! i] @ ord_str ''/''
                 \<and> label_string ''Fig1a'' i
                   = ord_str ''Fig1'' @ ord_str [''abcdefghijklmnopqrstuvwxyz'' ! i]"
    by (simp add: label_string_def ord_str_def letter del: list.map)
       (simp add: letter)
qed

theorem labels_follow_index_witness:
  "add_labels (\<lambda>c. c = ''black'') (\<lambda>t. (0, 0, 10 * int (length t), 12)) [\<lparr>width = 300, height = 200, mode = ''RGB'', px = Source 0\<rparr>,
      \<lparr>width = 100, height = 100, mode = ''RGBA'', px = Source 1\<rparr>] (Some \<lparr>cwidth = 440, cheight = 220, cmode = ''RGB'', fill = ''white'', pastes = [], labels = []\<rparr>) 1 2 ''(a)'' ''bottom_right'' ''black'' 10 20 20 10 ''center''
     = Some \<lparr>cwidth = 440, cheight = 220, cmode = ''RGBA'', fill = ''white'', pastes = [],
           labels = [(ord_str ''(a)'', 270, 188, ''black''), (ord_str ''(b)'', 390, 138, ''black'')]\<rparr>"
proof -
  have drawn: "\<lparr>cwidth = 440, cheight = 220, cmode = ''RGB'', fill = ''white'', pastes = [], labels = []\<rparr>\<lparr>cmode := ''RGBA'',
          labels := labels \<lparr>cwidth = 440, cheight = 220, cmode = ''RGB'', fill = ''white'', pastes = [], labels = []\<rparr> @
            map (label_entry (\<lambda>t. (0, 0, 10 * int (length t), 12)) [\<lparr>width = 300, height = 200, mode = ''RGB'', px = Source 0\<rparr>,
      \<lparr>width = 100, height = 100, mode = ''RGBA'', px = Source 1\<rparr>] (nat 2) ''(a)'' ''bottom_right'' ''black'' 10 20 20 10
                   ''center'' (col_widths [\<lparr>width = 300, height = 200, mode = ''RGB'', px = Source 0\<rparr>,
      \<lparr>width = 100, height = 100, mode = ''RGBA'', px = Source 1\<rparr>] 1 2) (row_heights [\<lparr>width = 300, height = 200, mode = ''RGB'', px = Source 0\<rparr>,
      \<lparr>width = 100, height = 100, mode = ''RGBA'', px = Source 1\<rparr>] 1 2))
              [0..<min (length [\<lparr>width = 300, height = 200, mode = ''RGB'', px = Source 0\<rparr>,
      \<lparr>width = 100, height = 100, mode = ''RGBA'', px = Source 1\<rparr>]) (nat 1 * nat 2)]\<rparr>
       = \<lparr>cwidth = 440, cheight = 220, cmode = ''RGBA'', fill = ''white'', pastes = [],
           labels = [(ord_str ''(a)'', 270, 188, ''black''), (ord_str ''(b)'', 390, 138, ''black'')]\<rparr>"
    by code_simp
  have few: "97 + length [\<lparr>width = 300, height = 200, mode = ''RGB'', px = Source 0\<rparr>,
      \<lparr>width = 100, height = 100, mode = ''RGBA'', px = Source 1\<rparr>] \<le> 1114112"
    by simp
  have black: "(\<lambda>c. c = ''black'') ''black''"
    by simp
  show ?thesis
    using labels_follow_index
            [where known = "(\<lambda>c. c = ''black'')" and label_color = "''black''" and images = "[\<lparr>width = 300, height = 200, mode = ''RGB'', px = Source 0\<rparr>,
      \<lparr>width = 100, height = 100, mode = ''RGBA'', px = Source 1\<rparr>]"
               and rows = 1 and cols = 2, OF _ _ black few, THEN conjunct1,
             of "(\<lambda>t. (0, 0, 10 * int (length t), 12))" "\<lparr>cwidth = 440, cheight = 220, cmode = ''RGB'', fill = ''white'', pastes = [], labels = []\<rparr>" "''(a)''" "''bottom_right''" 10 20 20 10 "''center''"]
    unfolding drawn by simp
qed

text \<open>
  Claim C2 as stated fails at index 26: the text is \<^verbatim>\<open>"({)"\<close>, built on code
  point 123, not \<^verbatim>\<open>"(a)"\<close>.
\<close>

theorem label_wrap_counterexample:
  "label_text ''(a)'' 26 = Inr (ord_str ''({)'') \<and> label_text ''(a)'' 26 \<noteq> Inr (ord_str ''(a)'')
   \<and> label_text ''a/'' 26 = Inr (ord_str ''{/'') \<and> label_text ''Fig1a'' 26 = Inr (ord_str ''Fig1{'')"
  by (simp add: label_text_def py_chr_def and_then_def ord_str_def)

section \<open>Forced aspect ratio\<close>







lemma target_ratio:
  fixes rW rH :: int
  assumes "1 \<le> rW" "rW \<le> 2 ^ 15" "1 \<le> rH" "rH \<le> 2 ^ 15"
  defines "q \<equiv> of_int rW / of_int rH :: rat"
  shows "true_div rW rH = Inr (fl q)"
    and "q * (1 - 1 / 2 ^ 53) \<le> fl q" and "fl q \<le> q * (1 + 1 / 2 ^ 53)"
    and "1 / 2 ^ 15 \<le> q" and "q \<le> 2 ^ 15"
    and "1 / 2 ^ 17 \<le> fl q" and "fl q \<le> 2 ^ 17"
proof -
  have W31: "rW < 2 ^ 31" and H31: "rH < 2 ^ 31" using assms(2,4) by simp_all
  note B = scale_factor[OF assms(3) H31 assms(1) W31, folded q_def]
  show "true_div rW rH = Inr (fl q)" and lo: "q * (1 - 1 / 2 ^ 53) \<le> fl q"
    and hi: "fl q \<le> q * (1 + 1 / 2 ^ 53)"
    by (rule B(1), rule B(2), rule B(3))
  have W: "(1::rat) \<le> of_int rW" "(of_int rW :: rat) \<le> 2 ^ 15"
  proof -
    show "(1::rat) \<le> of_int rW" using assms(1) by simp
    have "(of_int rW :: rat) \<le> of_int (2 ^ 15)" using assms(2) by (simp only: of_int_le_iff)
    then show "(of_int rW :: rat) \<le> 2 ^ 15" by simp
  qed
  have H: "(1::rat) \<le> of_int rH" "(of_int rH :: rat) \<le> 2 ^ 15"
  proof -
    show "(1::rat) \<le> of_int rH" using assms(3) by simp
    have "(of_int rH :: rat) \<le> of_int (2 ^ 15)" using assms(4) by (simp only: of_int_le_iff)
    then show "(of_int rH :: rat) \<le> 2 ^ 15" by simp
  qed
  have "1 / 2 ^ 15 \<le> 1 / (of_int rH :: rat)" using H by (intro divide_left_mono) simp_all
  also have "\<dots> \<le> q" unfolding q_def using W H by (intro divide_right_mono) simp_all
  finally show qlo: "1 / 2 ^ 15 \<le> q" .
  have "q \<le> of_int rW / 1" unfolding q_def using W H by (intro divide_left_mono) simp_all
  also have "\<dots> \<le> 2 ^ 15" using W by simp
  finally show qhi: "q \<le> 2 ^ 15" .
  have "(1::rat) / 2 ^ 17 \<le> 1 / 2 ^ 15 * (1 - 1 / 2 ^ 53)" by simp
  also have "\<dots> \<le> q * (1 - 1 / 2 ^ 53)" using qlo by (intro mult_right_mono) simp_all
  also have "\<dots> \<le> fl q" by (rule lo)
  finally show "1 / 2 ^ 17 \<le> fl q" .
  have "fl q \<le> q * (1 + 1 / 2 ^ 53)" by (rule hi)
  also have "\<dots> \<le> 2 ^ 15 * (1 + 1 / 2 ^ 53)" using qhi by (intro mult_right_mono) simp_all
  also have "\<dots> \<le> (2::rat) ^ 17" by simp
  finally show "fl q \<le> 2 ^ 17" .
qed











section \<open>Zero-sized sources\<close>

lemma to_float_0: "to_float 0 = Inr 0"
  by (simp add: to_float_def fl_def)

lemma int_mul_float_0: "int_mul_float 0 x = Inr 0"
  by (simp add: int_mul_float_def float_of_int_def to_float_0 and_then_def)

lemma py_int_0: "py_int 0 = 0"
  by (simp add: py_int_def)





lemma resize_body_longest:
  "resize_body mem img ''longest_edge'' sz None fast =
     scale_by mem img sz (max (width img) (height img)) (if fast then NEAREST else LANCZOS)"
  by (simp add: resize_body_def)







section \<open>Longest-edge scaling\<close>

text \<open>
  Claim C5, as the code has it.  For a source and a target below \<open>2\<^sup>3\<^sup>1\<close>
  pixels, \<^verbatim>\<open>ratio = size / max(width, height)\<close> is computed in floating point
  and each side is \<^verbatim>\<open>int(side * ratio)\<close>.  When both new sides are at least
  one pixel and the machine has memory for an image of that size (or it is the
  present size), the image returned has exactly these sides.  When a side is
  zero the library refuses the size with \<^verbatim>\<open>ValueError\<close>, when memory is
  lacking with \<^verbatim>\<open>MemoryError\<close>; the handler catches either and the source is
  returned unchanged.  The new sides lie within one pixel (and two roundings)
  below the exact products \<open>side * size / max\<close>, and the larger one is \<open>size\<close>
  or \<open>size - 1\<close>.
\<close>

theorem longest_edge_resize:
  assumes "0 < width img" and "width img < 2 ^ 31"
    and "0 < height img" and "height img < 2 ^ 31"
    and "0 < S" and "S < 2 ^ 31"
  shows "let m = max (width img) (height img);
             ratio = fl (of_int S / of_int m);
             nw = py_int (fl (of_int (width img) * ratio));
             nh = py_int (fl (of_int (height img) * ratio));
             res = resize_image mem img ''longest_edge'' S None fast
         in (if 1 \<le> nw \<and> 1 \<le> nh
             then if (nw, nh) = (width img, height img) \<or> mem (nw, nh)
                  then width (fst res) = nw \<and> height (fst res) = nh \<and> snd res = None
                  else res = (img, Some MemoryError)
             else res = (img, Some ValueError))
          \<and> S - 1 \<le> max nw nh \<and> max nw nh \<le> S
          \<and> of_int (width img) * of_int S / of_int m * (1 - 1 / 2 ^ 53) ^ 2 - 1
              < (of_int nw :: rat)
          \<and> (of_int nw :: rat)
              \<le> of_int (width img) * of_int S / of_int m * (1 + 1 / 2 ^ 53) ^ 2
          \<and> of_int (height img) * of_int S / of_int m * (1 - 1 / 2 ^ 53) ^ 2 - 1
              < (of_int nh :: rat)
          \<and> (of_int nh :: rat)
              \<le> of_int (height img) * of_int S / of_int m * (1 + 1 / 2 ^ 53) ^ 2"
proof -
  define m where "m = max (width img) (height img)"
  define ratio where "ratio = fl (of_int S / of_int m)"
  define nw where "nw = py_int (fl (of_int (width img) * ratio))"
  define nh where "nh = py_int (fl (of_int (height img) * ratio))"
  define res where "res = resize_image mem img ''longest_edge'' S None fast"
  have m: "1 \<le> m" "m < 2 ^ 31" "width img \<le> m" "height img \<le> m"
    unfolding m_def using assms by simp_all
  have w1: "1 \<le> width img" and h1: "1 \<le> height img" and S1: "1 \<le> S"
    using assms by simp_all
  have W: "0 \<le> nw" "nw \<le> S"
    "of_int (width img) * of_int S / of_int m * (1 - 1 / 2 ^ 53) ^ 2 - 1 < (of_int nw :: rat)"
    "(of_int nw :: rat) \<le> of_int (width img) * of_int S / of_int m * (1 + 1 / 2 ^ 53) ^ 2"
    "width img = m \<Longrightarrow> S - 1 \<le> nw"
    unfolding nw_def ratio_def by (rule scaled_side_px[OF w1 m(3) m(2) S1 assms(6)])+
  have H: "0 \<le> nh" "nh \<le> S"
    "of_int (height img) * of_int S / of_int m * (1 - 1 / 2 ^ 53) ^ 2 - 1 < (of_int nh :: rat)"
    "(of_int nh :: rat) \<le> of_int (height img) * of_int S / of_int m * (1 + 1 / 2 ^ 53) ^ 2"
    "height img = m \<Longrightarrow> S - 1 \<le> nh"
    unfolding nh_def ratio_def by (rule scaled_side_px[OF h1 m(4) m(2) S1 assms(6)])+
  have td: "true_div S m = Inr ratio"
    unfolding ratio_def by (rule scale_factor(1)[OF m(1,2) S1 assms(6)])
  have mw: "int_mul_float (width img) ratio = Inr (fl (of_int (width img) * ratio))"
    unfolding ratio_def by (rule scaled_side(1)[OF w1 assms(2) m(1,2) S1 assms(6)])
  have mh: "int_mul_float (height img) ratio = Inr (fl (of_int (height img) * ratio))"
    unfolding ratio_def by (rule scaled_side(1)[OF h1 assms(4) m(1,2) S1 assms(6)])
  have body: "resize_body mem img ''longest_edge'' S None fast
                = failing img (pil_resize mem img (nw, nh) (if fast then NEAREST else LANCZOS)) Inr"
    by (simp add: resize_body_longest scale_by_def failing_def td mw mh nw_def nh_def
                  m_def[symmetric])
  have small: "nw < 2 ^ 31" "nh < 2 ^ 31" "\<not> nw < - (2 ^ 31)" "\<not> nh < - (2 ^ 31)"
    using W(1,2) H(1,2) assms(6) by simp_all
  have first: "if 1 \<le> nw \<and> 1 \<le> nh
             then if (nw, nh) = (width img, height img) \<or> mem (nw, nh)
                  then width (fst res) = nw \<and> height (fst res) = nh \<and> snd res = None
                  else res = (img, Some MemoryError)
             else res = (img, Some ValueError)"
    using small w1 h1
    by (auto simp: res_def resize_image_def body failing_def pil_resize_def Let_def)
  have "S - 1 \<le> nw \<or> S - 1 \<le> nh"
  proof (cases "width img = m")
    case True
    then show ?thesis using W(5) by simp
  next
    case False
    then have "height img = m" unfolding m_def by (simp add: max_def split: if_splits)
    then show ?thesis using H(5) by simp
  qed
  then have second: "S - 1 \<le> max nw nh \<and> max nw nh \<le> S"
    using W(2) H(2) by auto
  show ?thesis
    unfolding Let_def m_def[symmetric] ratio_def[symmetric] nw_def[symmetric] nh_def[symmetric]
      res_def[symmetric]
    using first second W(3,4) H(3,4) by simp
qed

theorem longest_edge_resize_witness:
  "width (fst (resize_image ample_memory \<lparr>width = 600, height = 400, mode = ''RGB'', px = Source 0\<rparr> ''longest_edge'' 400 None False)) = 400
   \<and> height (fst (resize_image ample_memory \<lparr>width = 600, height = 400, mode = ''RGB'', px = Source 0\<rparr> ''longest_edge'' 400 None False)) = 266
   \<and> snd (resize_image ample_memory \<lparr>width = 600, height = 400, mode = ''RGB'', px = Source 0\<rparr> ''longest_edge'' 400 None False) = None"
proof -
  have nw: "py_int (fl (of_int (width \<lparr>width = 600, height = 400, mode = ''RGB'', px = Source 0\<rparr>)
              * fl (of_int 400 / of_int (max (width \<lparr>width = 600, height = 400, mode = ''RGB'', px = Source 0\<rparr>) (height \<lparr>width = 600, height = 400, mode = ''RGB'', px = Source 0\<rparr>))))) = 400"
    by code_simp
  have nh: "py_int (fl (of_int (height \<lparr>width = 600, height = 400, mode = ''RGB'', px = Source 0\<rparr>)
              * fl (of_int 400 / of_int (max (width \<lparr>width = 600, height = 400, mode = ''RGB'', px = Source 0\<rparr>) (height \<lparr>width = 600, height = 400, mode = ''RGB'', px = Source 0\<rparr>))))) = 266"
    by code_simp
  have sizes: "0 < width \<lparr>width = 600, height = 400, mode = ''RGB'', px = Source 0\<rparr>" "width \<lparr>width = 600, height = 400, mode = ''RGB'', px = Source 0\<rparr> < 2 ^ 31" "0 < height \<lparr>width = 600, height = 400, mode = ''RGB'', px = Source 0\<rparr>" "height \<lparr>width = 600, height = 400, mode = ''RGB'', px = Source 0\<rparr> < 2 ^ 31"
    by simp_all
  show ?thesis
    using longest_edge_resize[OF sizes, where S = 400 and mem = ample_memory and fast = False]
    unfolding Let_def nw nh by (simp add: ample_memory_def)
qed

text \<open>
  Claim C5 as stated fails on a thin source: for 1024 by 1 pixels and target
  100 the height rounds down to 0, the library refuses 100 by 0, and the call
  returns the 1024 by 1 source, whose longer side is not 100.
\<close>

theorem longest_edge_resize_counterexample:
  "resize_image ample_memory \<lparr>width = 1024, height = 1, mode = ''RGB'', px = Source 0\<rparr>
      ''longest_edge'' 100 None False = (\<lparr>width = 1024, height = 1, mode = ''RGB'', px = Source 0\<rparr>, Some ValueError)"
  by code_simp

section \<open>The safety ceiling\<close>

lemma capped_side:
  fixes n m :: int
  assumes "0 \<le> n" "n \<le> m" "16384 < m" "m < 2 ^ 31"
  defines "scale \<equiv> fl (16384 / of_int m)"
  shows "int_mul_float n scale = Inr (fl (of_int n * scale))"
    and "0 \<le> py_int (fl (of_int n * scale))"
    and "py_int (fl (of_int n * scale)) \<le> 16384"
    and "n = m \<Longrightarrow> 16383 \<le> py_int (fl (of_int n * scale))"
proof -
  have m1: "1 \<le> m" using assms(3) by simp
  have S: "(1::int) \<le> 16384" "(16384::int) < 2 ^ 31" by simp_all
  show "int_mul_float n scale = Inr (fl (of_int n * scale))"
  proof (cases "n = 0")
    case True
    then show ?thesis by (simp add: int_mul_float_0 fl_def)
  next
    case False
    then have n: "1 \<le> n" "n < 2 ^ 31" using assms by simp_all
    show ?thesis unfolding scale_def using scaled_side(1)[OF n m1 assms(4) S] by simp
  qed
  show "0 \<le> py_int (fl (of_int n * scale))"
  proof (cases "n = 0")
    case True
    then show ?thesis by (simp add: fl_def py_int_0)
  next
    case False
    then have n: "1 \<le> n" using assms by simp
    show ?thesis unfolding scale_def using scaled_side_px(1)[OF n assms(2,4) S] by simp
  qed
  show "py_int (fl (of_int n * scale)) \<le> 16384"
  proof (cases "n = 0")
    case True
    then show ?thesis by (simp add: fl_def py_int_0)
  next
    case False
    then have n: "1 \<le> n" using assms by simp
    show ?thesis unfolding scale_def using scaled_side_px(2)[OF n assms(2,4) S] by simp
  qed
  show "16383 \<le> py_int (fl (of_int n * scale))" if "n = m"
  proof -
    have n: "1 \<le> n" using that m1 by simp
    show ?thesis
      unfolding scale_def using scaled_side_px(5)[OF n assms(2,4) S that] by simp
  qed
qed

lemma limit_canvas_large:
  assumes "0 \<le> tw" "0 \<le> th" "16384 < tw \<or> 16384 < th" "tw < 2 ^ 31" "th < 2 ^ 31"
  shows "let scale = fl (16384 / of_int (max tw th));
             w = py_int (fl (of_int tw * scale)); h = py_int (fl (of_int th * scale))
         in limit_canvas tw th = Inr (w, h)
            \<and> 0 \<le> w \<and> w \<le> 16384 \<and> 0 \<le> h \<and> h \<le> 16384 \<and> 16383 \<le> max w h"
proof -
  define m where "m = max tw th"
  have m: "tw \<le> m" "th \<le> m" "16384 < m" "m < 2 ^ 31"
    unfolding m_def using assms by auto
  note W = capped_side[OF assms(1) m(1,3,4)] and H = capped_side[OF assms(2) m(2,3,4)]
  have td: "true_div 16384 m = Inr (fl (16384 / of_int m))"
    using scale_factor(1)[of m 16384] m(3,4) by simp
  have lim: "limit_canvas tw th
      = Inr (py_int (fl (of_int tw * fl (16384 / of_int m))),
             py_int (fl (of_int th * fl (16384 / of_int m))))"
    using assms(3) by (simp add: limit_canvas_def max_canvas_size_def m_def[symmetric] td
                                 and_then_def W(1) H(1))
  have "tw = m \<or> th = m" unfolding m_def by (simp add: max_def)
  then have "16383 \<le> py_int (fl (of_int tw * fl (16384 / of_int m)))
           \<or> 16383 \<le> py_int (fl (of_int th * fl (16384 / of_int m)))"
    using W(4) H(4) by blast
  then show ?thesis
    unfolding Let_def m_def[symmetric] using lim W(2,3) H(2,3) by (simp add: le_max_iff_disj)
qed

text \<open>
  Claim C6.  For a layout as in claim C1 whose unscaled total exceeds 16384 px
  on an axis (and stays below \<open>2\<^sup>3\<^sup>1\<close>), a non-empty image list and a known
  background, a canvas is allocated; its sides are the totals times the one
  factor \<^verbatim>\<open>16384 / max(total_width, total_height)\<close>, truncated, so both are
  at most 16384, and the larger is 16384 or, after rounding, 16383.
\<close>

theorem canvas_capped:
  assumes "1 \<le> rows" and "1 \<le> cols"
    and "0 \<le> h_spacing" and "0 \<le> v_spacing" and "0 \<le> margin"
    and wf: "\<forall>img\<in>set images. 0 \<le> width img \<and> 0 \<le> height img"
    and "images \<noteq> []" and "bg_color = ''transparent'' \<or> known bg_color"
    and "16384 < canvas_width images rows cols h_spacing margin
         \<or> 16384 < canvas_height images rows cols v_spacing margin"
    and "canvas_width images rows cols h_spacing margin < 2 ^ 31"
    and "canvas_height images rows cols v_spacing margin < 2 ^ 31"
  shows "\<exists>cv. create_combined_image known images rows cols h_spacing v_spacing bg_color margin
               align = Some cv
          \<and> (let tw = canvas_width images rows cols h_spacing margin;
                  th = canvas_height images rows cols v_spacing margin;
                  scale = fl (16384 / of_int (max tw th))
              in cwidth cv = py_int (fl (of_int tw * scale))
                 \<and> cheight cv = py_int (fl (of_int th * scale)))
          \<and> 0 \<le> cwidth cv \<and> cwidth cv \<le> 16384
          \<and> 0 \<le> cheight cv \<and> cheight cv \<le> 16384
          \<and> 16383 \<le> max (cwidth cv) (cheight cv)"
proof -
  define tw where "tw = canvas_width images rows cols h_spacing margin"
  define th where "th = canvas_height images rows cols v_spacing margin"
  have w: "\<forall>img\<in>set images. 0 \<le> width img" and h: "\<forall>img\<in>set images. 0 \<le> height img"
    using wf by simp_all
  have tw: "total_width images rows cols h_spacing margin = tw"
    unfolding tw_def by (rule total_width_eq[OF w])
  have th: "total_height images rows cols v_spacing margin = th"
    unfolding th_def by (rule total_height_eq[OF h])
  have nn: "0 \<le> tw" "0 \<le> th"
    unfolding tw_def th_def
    using canvas_width_nonneg[OF assms(2,3,5) w] canvas_height_nonneg[OF assms(1,4,5) h]
    by simp_all
  have big: "16384 < tw \<or> 16384 < th" and lt: "tw < 2 ^ 31" "th < 2 ^ 31"
    unfolding tw_def th_def using assms(9-11) by simp_all
  define nw where "nw = py_int (fl (of_int tw * fl (16384 / of_int (max tw th))))"
  define nh where "nh = py_int (fl (of_int th * fl (16384 / of_int (max tw th))))"
  from limit_canvas_large[OF nn big lt]
  have lim: "limit_canvas tw th = Inr (nw, nh)"
    and bounds: "0 \<le> nw" "nw \<le> 16384" "0 \<le> nh" "nh \<le> 16384" "16383 \<le> max nw nh"
    unfolding Let_def nw_def nh_def by simp_all
  obtain c0 where c0: "image_new known (nw, nh) bg_color = Inr c0"
    and dims: "cwidth c0 = nw" "cheight c0 = nh"
    using bounds(1,3) assms(8)
    by (cases "bg_color = ''transparent''") (auto simp: image_new_def)
  have "create_combined_image known images rows cols h_spacing v_spacing bg_color margin align
      = Some (paste_all images rows cols h_spacing v_spacing margin align
                (col_widths images rows cols) (row_heights images rows cols) c0)"
    using assms(7) by (simp add: create_combined_image_def tw th lim and_then_def c0 Let_def)
  then show ?thesis
    using bounds dims
    by (simp add: paste_all_size Let_def tw_def[symmetric] th_def[symmetric] nw_def nh_def)
qed

theorem canvas_capped_witness:
  "\<exists>cv. create_combined_image (\<lambda>c. c = ''white'') [\<lparr>width = 10000, height = 100, mode = ''RGB'', px = Source 0\<rparr>,
      \<lparr>width = 10000, height = 100, mode = ''RGB'', px = Source 0\<rparr>] 1 2 20 20 ''white'' 10 ''center'' = Some cv
      \<and> cwidth cv = 16383 \<and> cheight cv = 98"
proof -
  have tw: "canvas_width [\<lparr>width = 10000, height = 100, mode = ''RGB'', px = Source 0\<rparr>,
      \<lparr>width = 10000, height = 100, mode = ''RGB'', px = Source 0\<rparr>] 1 2 20 10 = 20040"
    by code_simp
  have th: "canvas_height [\<lparr>width = 10000, height = 100, mode = ''RGB'', px = Source 0\<rparr>,
      \<lparr>width = 10000, height = 100, mode = ''RGB'', px = Source 0\<rparr>] 1 2 20 10 = 120"
    by code_simp
  have nw: "py_int (fl (of_int 20040 * fl (16384 / of_int (max 20040 120)))) = 16383"
    by code_simp
  have nh: "py_int (fl (of_int 120 * fl (16384 / of_int (max 20040 120)))) = 98"
    by code_simp
  have wf: "\<forall>img\<in>set [\<lparr>width = 10000, height = 100, mode = ''RGB'', px = Source 0\<rparr>,
      \<lparr>width = 10000, height = 100, mode = ''RGB'', px = Source 0\<rparr>]. 0 \<le> width img \<and> 0 \<le> height img"
    by simp
  have white: "''white'' = ''transparent'' \<or> (\<lambda>c. c = ''white'') ''white''"
    by simp
  have "\<exists>cv. create_combined_image (\<lambda>c. c = ''white'') [\<lparr>width = 10000, height = 100, mode = ''RGB'', px = Source 0\<rparr>,
      \<lparr>width = 10000, height = 100, mode = ''RGB'', px = Source 0\<rparr>] 1 2 20 20 ''white'' 10 ''center'' = Some cv
      \<and> (let tw = canvas_width [\<lparr>width = 10000, height = 100, mode = ''RGB'', px = Source 0\<rparr>,
      \<lparr>width = 10000, height = 100, mode = ''RGB'', px = Source 0\<rparr>] 1 2 20 10; th = canvas_height [\<lparr>width = 10000, height = 100, mode = ''RGB'', px = Source 0\<rparr>,
      \<lparr>width = 10000, height = 100, mode = ''RGB'', px = Source 0\<rparr>] 1 2 20 10;
              scale = fl (16384 / of_int (max tw th))
          in cwidth cv = py_int (fl (of_int tw * scale))
             \<and> cheight cv = py_int (fl (of_int th * scale)))
      \<and> 0 \<le> cwidth cv \<and> cwidth cv \<le> 16384 \<and> 0 \<le> cheight cv \<and> cheight cv \<le> 16384
      \<and> 16383 \<le> max (cwidth cv) (cheight cv)"
    by (rule canvas_capped[where known = "(\<lambda>c. c = ''white'')" and bg_color = "''white''", OF _ _ _ _ _ wf _ white])
       (simp_all add: tw th)
  then show ?thesis
    unfolding tw th Let_def nw nh by blast
qed

section \<open>Preview and export quality\<close>















section \<open>The session, step by step\<close>

text \<open>
  The file is loaded into the window as created, which composes the preview
  from the thumbnail; the export then opens the file again.  Each call is
  evaluated on its own, and the calls are chained by the lemmas below, for
  any window that has the widgets of the window as created.
\<close>

lemma load_demo:
  "load_images demo_environment \<lparr>stored_images = [], image_paths = []\<rparr> [''a.png'']
     = (\<lparr>stored_images = [photo_thumbnail], image_paths = [''a.png'']\<rparr>, Inr (1, 0))"
  by code_simp

lemma start_widgets:
  "getitem resize_mode_map (combo_resize start_window) = Inr ''original''"
  "getitem aspect_map (combo_aspect start_window) = Inr None"
  "getitem bg_color_map (combo_bg_color start_window) = Inr ''white''"
  "getitem label_format_map (combo_label_format start_window) = Inr ''(a)''"
  "getitem label_pos_map (combo_label_pos start_window) = Inr ''top_left''"
  "getitem label_color_map (combo_label_color start_window) = Inr ''black''"
  "getitem align_map [23621, 20013] = Inr ''center''"
  "combo_spacing_unit start_window \<noteq> 21400 # 31859 # ord_str ''(cm)''"
  "radio_center start_window = True"
  "spin_rows start_window = 2" "spin_cols start_window = 2" "spin_size start_window = 800"
  "spin_h_spacing start_window = 20" "spin_v_spacing start_window = 20"
  "spin_canvas_margin start_window = 10" "spin_label_margin start_window = 10"
  "spin_font_size start_window = 12" "combo_font start_window = ord_str ''Arial''"
  "current_preview start_window = None"
  "image_processor start_window = \<lparr>stored_images = [], image_paths = []\<rparr>"
  by (simp_all add: start_window_def getitem_def resize_mode_map_def aspect_map_def
        bg_color_map_def label_format_map_def label_pos_map_def label_color_map_def
        align_map_def ord_str_def)

lemma compose_thumbnail:
  "add_labels (known_colour demo_environment)
     (text_bbox demo_environment (ord_str ''Arial'') 12) [photo_thumbnail]
     (create_combined_image (known_colour demo_environment) [photo_thumbnail]
        2 2 20 20 ''white'' 10 ''center'')
     2 2 ''(a)'' ''top_left'' ''black'' 10 20 20 10 ''center'' = Some demo_preview"
  by code_simp

lemma compose_photo:
  "add_labels (known_colour demo_environment)
     (text_bbox demo_environment (ord_str ''Arial'') 12) [photo]
     (create_combined_image (known_colour demo_environment) [photo]
        2 2 20 20 ''white'' 10 ''center'')
     2 2 ''(a)'' ''top_left'' ''black'' 10 20 20 10 ''center'' = Some demo_export"
  by code_simp

lemma show_demo_preview: "show_preview (preview_size demo_environment) (Some demo_preview) = None"
  by code_simp

lemma reopen_demo:
  "reopen demo_environment ''original'' 800 None ''a.png'' = Inr photo"
  by code_simp

lemma resize_original: "fst (resize_image mem img ''original'' sz ar fast) = img"
  by (simp add: resize_image_def resize_body_def)

lemma set_images_back:
  "set_images (set_images win imgs) (stored_images (image_processor win)) = win"
  by (simp add: set_images_def)

lemma widget_of_start:
  assumes "win\<lparr>image_processor := p, current_preview := c\<rparr> = start_window"
    and "\<And>r. f (r\<lparr>image_processor := p, current_preview := c\<rparr>) = f r"
  shows "f win = f start_window"
  using assms(2)[of win] assms(1) by simp

lemma default_widgets:
  assumes "win\<lparr>image_processor := p, current_preview := c\<rparr> = start_window"
  shows "combo_resize win = combo_resize start_window"
    "combo_aspect win = combo_aspect start_window"
    "combo_bg_color win = combo_bg_color start_window"
    "combo_label_format win = combo_label_format start_window"
    "combo_label_pos win = combo_label_pos start_window"
    "combo_label_color win = combo_label_color start_window"
    "combo_spacing_unit win = combo_spacing_unit start_window"
    "radio_center win = radio_center start_window"
    "spin_rows win = spin_rows start_window"
    "spin_cols win = spin_cols start_window"
    "spin_size win = spin_size start_window"
    "spin_h_spacing win = spin_h_spacing start_window"
    "spin_v_spacing win = spin_v_spacing start_window"
    "spin_canvas_margin win = spin_canvas_margin start_window"
    "spin_label_margin win = spin_label_margin start_window"
    "spin_font_size win = spin_font_size start_window"
    "combo_font win = combo_font start_window"
  by (rule widget_of_start[OF assms], simp)+

lemma compose_start:
  assumes "win\<lparr>image_processor := p, current_preview := c\<rparr> = start_window"
  shows "compose_and_label demo_environment win 2 2
   = Inr (add_labels (known_colour demo_environment)
            (text_bbox demo_environment (ord_str ''Arial'') 12)
            (stored_images (image_processor win))
            (create_combined_image (known_colour demo_environment)
               (stored_images (image_processor win)) 2 2 20 20 ''white'' 10 ''center'')
            2 2 ''(a)'' ''top_left'' ''black'' 10 20 20 10 ''center'')"
  by (simp add: compose_and_label_def raising_def default_widgets[OF assms] start_widgets Let_def)

lemma start_like_set_images:
  assumes "win\<lparr>image_processor := p, current_preview := c\<rparr> = start_window"
  shows "(set_images win imgs)\<lparr>image_processor := p, current_preview := c\<rparr> = start_window"
  using assms by (simp add: set_images_def)

lemma preview_start:
  assumes "win\<lparr>image_processor := p, current_preview := c\<rparr> = start_window"
    and "stored_images (image_processor win) = [photo_thumbnail]"
  shows "update_preview demo_environment win = (win\<lparr>current_preview := Some demo_preview\<rparr>, None)"
proof -
  let ?win1 = "set_images win [photo_thumbnail]"
  have c: "compose_and_label demo_environment ?win1 2 2 = Inr (Some demo_preview)"
    using compose_start[OF start_like_set_images[OF assms(1), of "[photo_thumbnail]"]]
    by (simp add: set_images_def compose_thumbnail)
  have restored: "set_images ?win1 [photo_thumbnail] = win"
    using set_images_back[of win "[photo_thumbnail]"] assms(2) by simp
  have "preview_body demo_environment win = Inr (win\<lparr>current_preview := Some demo_preview\<rparr>)"
    unfolding preview_body_def
    by (simp add: raising_def default_widgets[OF assms(1)] start_widgets Let_def assms(2)
          resize_original c restored show_demo_preview)
  then show ?thesis by (simp add: update_preview_def assms(2))
qed

lemma export_start:
  assumes "win\<lparr>image_processor := p, current_preview := c\<rparr> = start_window"
    and "image_paths (image_processor win) = [''a.png'']"
    and "current_preview win \<noteq> None"
  shows "output_image demo_environment ''out.png'' win = (win, Some (Inr (Some demo_export)))"
proof -
  let ?win1 = "set_images win [photo]"
  have c: "compose_and_label demo_environment ?win1 2 2 = Inr (Some demo_export)"
    using compose_start[OF start_like_set_images[OF assms(1), of "[photo]"]]
    by (simp add: set_images_def compose_photo)
  have restored: "set_images ?win1 (stored_images (image_processor win)) = win"
    by (rule set_images_back)
  have "export_body demo_environment win = Inr (win, Some demo_export)"
    unfolding export_body_def
    by (simp add: raising_def default_widgets[OF assms(1)] start_widgets Let_def assms(2)
          reopen_demo c restored)
  then show ?thesis using assms(3) by (simp add: output_image_def)
qed

lemma demo_window_value:
  "demo_window = start_window
     \<lparr>image_processor := \<lparr>stored_images = [photo_thumbnail], image_paths = [''a.png'']\<rparr>,
      current_preview := Some demo_preview\<rparr>"
proof -
  let ?w = "start_window
     \<lparr>image_processor := \<lparr>stored_images = [photo_thumbnail], image_paths = [''a.png'']\<rparr>\<rparr>"
  have s: "?w\<lparr>image_processor := image_processor start_window,
              current_preview := current_preview start_window\<rparr> = start_window"
    by simp
  have "update_preview demo_environment ?w = (?w\<lparr>current_preview := Some demo_preview\<rparr>, None)"
    by (rule preview_start[OF s]) simp
  then show ?thesis
    by (simp add: demo_window_def window_load_images_def load_demo start_widgets)
qed

lemma output_demo:
  "output_image demo_environment ''out.png'' demo_window
     = (demo_window, Some (Inr (Some demo_export)))"
proof -
  have s: "demo_window\<lparr>image_processor := image_processor start_window,
              current_preview := current_preview start_window\<rparr> = start_window"
    by (simp add: demo_window_value)
  show ?thesis
    by (rule export_start[OF s]) (simp_all add: demo_window_value)
qed

section \<open>The image list after a preview or an export\<close>




lemma widgets_set_images [simp]:
  "widgets_in_range (set_images win imgs) = widgets_in_range win"
  by (simp add: widgets_in_range_def set_images_def)

lemma images_set_images [simp]:
  "stored_images (image_processor (set_images win imgs)) = imgs"
  by (simp add: set_images_def)






section \<open>The size of the loaded images\<close>

text \<open>
  Rounding to a float never crosses an integer: below 1024 stays at most
  1024.  With it, the side that \<^verbatim>\<open>Image.thumbnail\<close> computes is at most the
  side requested.
\<close>

lemma round_half_even_le:
  assumes "x \<le> of_int N"
  shows "round_half_even x \<le> N"
proof (cases "x = of_int N")
  case True
  then show ?thesis by (simp add: round_half_even_of_int)
next
  case False
  then have "x < of_int N" using assms by simp
  then have "\<lfloor>x\<rfloor> < N" by (simp add: floor_less_iff)
  then have "\<lfloor>x\<rfloor> + 1 \<le> N" by simp
  then show ?thesis by (simp add: round_half_even_def Let_def)
qed

lemma fl_le_1024:
  assumes "q \<le> 1024"
  shows "fl q \<le> 1024"
proof (cases "q \<le> 0")
  case True
  define p :: rat where "p = 2 powi ulp_exp q"
  have p: "0 < p" unfolding p_def by simp
  have "q / p \<le> of_int 0" using True p by (simp add: divide_le_0_iff)
  then have "round_half_even (q / p) \<le> 0" by (rule round_half_even_le)
  then have "(of_int (round_half_even (q / p)) :: rat) \<le> 0" by simp
  then have "of_int (round_half_even (q / p)) * p \<le> 0" using p by (simp add: mult_le_0_iff)
  then have "fl q \<le> 0" by (simp add: fl_def p_def)
  then show ?thesis by simp
next
  case False
  then have q: "0 < q" by simp
  have "q < 2 powi 11" using assms by simp
  from ilog2_less[OF q this] have il: "ilog2 q \<le> 10" by simp
  define e where "e = ulp_exp q"
  have e: "e \<le> - 42" using il q by (simp add: e_def ulp_exp_def)
  define p :: rat where "p = 2 powi e"
  have p: "0 < p" unfolding p_def by simp
  define N :: int where "N = 2 ^ nat (10 - e)"
  have N: "(of_int N :: rat) = 2 powi (10 - e)"
    using e by (simp add: N_def power_int_def)
  have Np: "of_int N * p = 1024"
  proof -
    have "of_int N * p = 2 powi (10 - e) * 2 powi e" by (simp add: N p_def)
    also have "\<dots> = 2 powi (10 - e + e)" by (rule power_int_add[symmetric]) simp
    finally show ?thesis by simp
  qed
  have "q / p \<le> 1024 / p" using assms p by (simp add: divide_right_mono)
  also have "1024 / p = of_int N" using Np p by (simp add: field_simps)
  finally have "round_half_even (q / p) \<le> N" by (rule round_half_even_le)
  then have "(of_int (round_half_even (q / p)) :: rat) \<le> of_int N" by simp
  then have "of_int (round_half_even (q / p)) * p \<le> of_int N * p"
    using p by (simp add: mult_right_mono)
  then show ?thesis using q by (simp add: fl_def Np e_def[symmetric] p_def[symmetric])
qed

lemma to_float_value: "to_float q = Inr x \<Longrightarrow> x = fl q"
  by (simp add: to_float_def split: if_splits)

lemma round_aspect_le:
  assumes "round_aspect number key = Inr v" "number \<le> 1024"
  shows "v \<le> 1024"
proof -
  have "\<lceil>number\<rceil> \<le> 1024" using assms(2) by (simp add: ceiling_le_iff)
  moreover have "\<lfloor>number\<rfloor> \<le> \<lceil>number\<rceil>" by simp
  ultimately show ?thesis using assms(1)
    by (auto simp: round_aspect_def Let_def and_then_def split: sum.splits if_splits)
qed

lemma preserve_aspect_ratio_bound:
  assumes "preserve_aspect_ratio img (1024, 1024) = Inr (Some (x, y))"
  shows "x \<le> 1024 \<and> y \<le> 1024"
proof -
  have one: "true_div 1024 1024 = Inr 1"
    using fl_int_exact[of 1] by (simp add: true_div_def to_float_def)
  have f: "float_of_int 1024 = Inr 1024"
    using float_of_int_exact[of 1024] by simp
  from assms obtain aspect where
    a: "true_div (width img) (height img) = Inr aspect"
    by (auto simp: preserve_aspect_ratio_def Let_def and_then_def split: sum.splits if_splits)
  show ?thesis
  proof (cases "aspect \<le> 1")
    case True
    from assms a True obtain number where
      n: "int_mul_float 1024 aspect = Inr number"
      and r: "round_aspect number
               (\<lambda>n. and_then (true_div n 1024) (\<lambda>q.
                      and_then (float_sub aspect q) (\<lambda>d. Inr \<bar>d\<bar>))) = Inr x"
      and y: "y = 1024"
      by (auto simp: preserve_aspect_ratio_def Let_def and_then_def one
               split: sum.splits if_splits)
    from n have "number = fl (1024 * aspect)"
      by (simp add: int_mul_float_def f and_then_def to_float_value)
    moreover have "1024 * aspect \<le> 1024" using True by simp
    ultimately have "number \<le> 1024" using fl_le_1024 by simp
    from round_aspect_le[OF r this] y show ?thesis by simp
  next
    case False
    from assms a False obtain number where
      n: "int_div_float 1024 aspect = Inr number"
      and r: "round_aspect number
               (\<lambda>n. if n = 0 then Inr 0
                    else and_then (true_div 1024 n) (\<lambda>q.
                      and_then (float_sub aspect q) (\<lambda>d. Inr \<bar>d\<bar>))) = Inr y"
      and x: "x = 1024"
      by (auto simp: preserve_aspect_ratio_def Let_def and_then_def one
               split: sum.splits if_splits)
    from n have "number = fl (1024 / aspect)"
      by (simp add: int_div_float_def f and_then_def to_float_value split: if_splits)
    moreover have "1024 / aspect \<le> 1024" using False by (simp add: field_simps)
    ultimately have "number \<le> 1024" using fl_le_1024 by simp
    from round_aspect_le[OF r this] x show ?thesis by simp
  qed
qed

lemma pil_resize_size:
  assumes "pil_resize mem img (x, y) alg = Inr r"
  shows "width r = x \<and> height r = y"
  using assms by (auto simp: pil_resize_def Let_def split: if_splits)

lemma pil_thumbnail_bound:
  assumes "pil_thumbnail mem img (1024, 1024) alg = Inr t"
  shows "width t \<le> 1024 \<and> height t \<le> 1024"
proof (cases "preserve_aspect_ratio img (1024, 1024)")
  case (Inl e)
  then show ?thesis using assms by (simp add: pil_thumbnail_def and_then_def)
next
  case (Inr final_size)
  show ?thesis
  proof (cases final_size)
    case None
    have "width img \<le> 1024 \<and> height img \<le> 1024"
      using Inr None
      by (auto simp: preserve_aspect_ratio_def Let_def and_then_def split: sum.splits if_splits)
    moreover have "t = img" using assms Inr None by (simp add: pil_thumbnail_def and_then_def)
    ultimately show ?thesis by simp
  next
    case (Some new_size)
    obtain x y where xy: "new_size = (x, y)" by (cases new_size)
    have b: "x \<le> 1024 \<and> y \<le> 1024"
      using preserve_aspect_ratio_bound[of img x y] Inr Some xy by simp
    show ?thesis
    proof (cases "(width img, height img) = (x, y)")
      case True
      then have "t = img" using assms Inr Some xy by (simp add: pil_thumbnail_def and_then_def)
      then show ?thesis using True b by simp
    next
      case False
      then obtain r where r: "pil_resize mem img (x, y) alg = Inr r"
        and t: "t = r\<lparr>px := Thumbnail alg x y (px img)\<rparr>"
        using assms Inr Some xy
        by (auto simp: pil_thumbnail_def and_then_def split: sum.splits)
      from pil_resize_size[OF r] t b show ?thesis by simp
    qed
  qed
qed

lemma make_thumbnail_bound:
  assumes "make_thumbnail mem img = Inr t"
  shows "max (width t) (height t) \<le> max_size"
proof (cases "max_size < max (width img) (height img)")
  case True
  then have "pil_thumbnail mem img (1024, 1024) LANCZOS = Inr t"
    using assms by (simp add: make_thumbnail_def max_size_def)
  from pil_thumbnail_bound[OF this] show ?thesis by (simp add: max_size_def)
next
  case False
  then have "t = img" using assms by (simp add: make_thumbnail_def)
  then show ?thesis using False by auto
qed

lemma load_step_bounded:
  assumes "bounded_images (fst st)"
  shows "bounded_images (fst (load_step env st path))"
proof -
  obtain p errors added skipped where st: "st = (p, errors, added, skipped)"
    by (cases st) auto
  have p: "bounded_images p" using assms st by simp
  show ?thesis
  proof (cases "and_then (read_image env path) (make_thumbnail (can_allocate env))")
    case (Inl e)
    then show ?thesis using p by (simp add: load_step_def st)
  next
    case (Inr thumbnail)
    then obtain img where "make_thumbnail (can_allocate env) img = Inr thumbnail"
      by (auto simp: and_then_def split: sum.splits)
    from make_thumbnail_bound[OF this] p Inr show ?thesis
      by (simp add: load_step_def st bounded_images_def)
  qed
qed

lemma foldl_load_step_bounded:
  "bounded_images (fst st) \<Longrightarrow> bounded_images (fst (foldl (load_step env) st paths))"
proof (induction paths arbitrary: st)
  case Nil
  then show ?case by simp
next
  case (Cons path paths)
  show ?case using Cons.IH[OF load_step_bounded[OF Cons.prems]] by simp
qed

text \<open>
  Claim C10, as the code has it.  \<^verbatim>\<open>load_images\<close> appends to the image list
  only what \<^verbatim>\<open>make_thumbnail\<close> returned: the decoded picture when its longer
  side is at most 1024, and otherwise the result of
  \<^verbatim>\<open>thumbnail((1024, 1024))\<close>, whose sides are at most 1024.  So a list whose
  images all fit 1024 by 1024, the empty list of a new session among them,
  still does after the call, whether the call reported success or not.
\<close>

theorem loaded_images_bounded:
  assumes "bounded_images p"
  shows "bounded_images (fst (load_images env p paths))"
proof -
  have "bounded_images (fst (foldl (load_step env) (p, [], 0, 0) paths))"
    by (rule foldl_load_step_bounded) (use assms in simp)
  then show ?thesis by (auto simp: load_images_def split: prod.splits)
qed

theorem loaded_images_bounded_witness:
  "bounded_images \<lparr>stored_images = [], image_paths = []\<rparr>
   \<and> bounded_images
        (fst (load_images demo_environment \<lparr>stored_images = [], image_paths = []\<rparr> [''a.png'']))"
proof -
  have e: "bounded_images \<lparr>stored_images = [], image_paths = []\<rparr>"
    by (simp add: bounded_images_def)
  from e loaded_images_bounded[OF e, of demo_environment "[''a.png'']"] show ?thesis by simp
qed

text \<open>
  Claim C10 as stated fails in its last part: not all later resizing and
  composition work on the thumbnail.  In the session above the 4000 by 3000
  file is stored as a 1024 by 768 thumbnail and the preview is composed from
  it, but \<^verbatim>\<open>output_image\<close> opens the file again, resizes the full picture
  (here in mode \<^verbatim>\<open>'original'\<close>, the first item of the combo box) and composes
  a 4040 by 3040 canvas on which the full 4000 by 3000 picture is pasted.
\<close>

theorem export_composes_full_picture:
  "load_images demo_environment \<lparr>stored_images = [], image_paths = []\<rparr> [''a.png'']
     = (\<lparr>stored_images = [photo_thumbnail], image_paths = [''a.png'']\<rparr>, Inr (1, 0))
   \<and> stored_images (image_processor demo_window) = [photo_thumbnail]
   \<and> width photo_thumbnail = 1024 \<and> height photo_thumbnail = 768
   \<and> output_image demo_environment ''out.png'' demo_window
       = (demo_window, Some (Inr (Some demo_export)))
   \<and> pastes demo_export = [(photo, 10, 10, False)]
   \<and> width photo = 4000 \<and> height photo = 3000 \<and> px photo = Source 0"
proof -
  have stored: "stored_images (image_processor demo_window) = [photo_thumbnail]"
    by (simp add: demo_window_value)
  have small: "width photo_thumbnail = 1024 \<and> height photo_thumbnail = 768"
    by (simp add: photo_thumbnail_def)
  have pasted: "pastes demo_export = [(photo, 10, 10, False)]"
    by (simp add: demo_export_def)
  have full: "width photo = 4000 \<and> height photo = 3000 \<and> px photo = Source 0"
    by (simp add: photo_def)
  from load_demo stored small output_demo pasted full show ?thesis
    by blast
qed

end
